theory Spec2Isabelle
  imports Main "HOL-Library.Sublist"
begin

section \<open>Time values, calendar and strings\<close>

text \<open>
  A JavaScript \<^verbatim>\<open>Date\<close> is its time value: the milliseconds since 1970-01-01T00:00:00Z, an
  integer. The process runs in a time zone with a fixed offset \<open>tz\<close> (milliseconds east of
  UTC): the local fields of \<open>t\<close> are the UTC fields of \<open>t + tz\<close>. Where a \<^verbatim>\<open>Date\<close> is made
  from a string or from a number it can be the Invalid Date, which is \<open>None\<close> there.
\<close>

definition msPerHour :: int where
  "msPerHour = 3600000"

definition msPerDay :: int where
  "msPerDay = 86400000"

text \<open>
  The proleptic Gregorian calendar of ECMAScript (\<^verbatim>\<open>YearFromTime\<close>, \<^verbatim>\<open>MonthFromTime\<close>,
  \<^verbatim>\<open>DateFromTime\<close>, \<^verbatim>\<open>MakeDay\<close>), on day numbers counted from 1970-01-01; months are
  numbered from 1 here. A day number is split into its 400-year era, the century, the
  4-year cycle and the year of the cycle, with years that start on 1 March.
\<close>

definition civil_from_days :: "int \<Rightarrow> int \<times> int \<times> int" where
  "civil_from_days z0 =
     (let z = z0 + 719468;
          era = z div 146097;
          doe = z mod 146097;
          c = min (doe div 36524) 3;
          r1 = doe - 36524 * c;
          q = r1 div 1461;
          r2 = r1 - 1461 * q;
          yr = min (r2 div 365) 3;
          doy = r2 - 365 * yr;
          yoe = 100 * c + 4 * q + yr;
          mp = (5 * doy + 2) div 153;
          d = doy - (153 * mp + 2) div 5 + 1;
          m = (if mp < 10 then mp + 3 else mp - 9);
          y = yoe + era * 400
      in (if m \<le> 2 then y + 1 else y, m, d))"

definition days_from_civil :: "int \<Rightarrow> int \<Rightarrow> int \<Rightarrow> int" where
  "days_from_civil y0 m d =
     (let y = (if m \<le> 2 then y0 - 1 else y0);
          era = y div 400;
          yoe = y mod 400;
          mp = (if m > 2 then m - 3 else m + 9);
          doy = (153 * mp + 2) div 5 + d - 1;
          doe = yoe * 365 + yoe div 4 - yoe div 100 + doy
      in era * 146097 + doe - 719468)"

definition isLeapYear :: "int \<Rightarrow> bool" where
  "isLeapYear y = (y mod 400 = 0 \<or> (y mod 4 = 0 \<and> y mod 100 \<noteq> 0))"

definition daysInMonth :: "int \<Rightarrow> int \<Rightarrow> int" where
  "daysInMonth y m =
     (if m = 2 then (if isLeapYear y then 29 else 28)
      else if m = 4 \<or> m = 6 \<or> m = 9 \<or> m = 11 then 30 else 31)"

definition getUTCHours :: "int \<Rightarrow> int" where
  "getUTCHours t = (t mod msPerDay) div msPerHour"

definition getHours :: "int \<Rightarrow> int \<Rightarrow> int" where
  "getHours tz t = getUTCHours (t + tz)"

definition getFullYear :: "int \<Rightarrow> int \<Rightarrow> int" where
  "getFullYear tz t = fst (civil_from_days ((t + tz) div msPerDay))"

text \<open>\<^verbatim>\<open>getMonth\<close> counts months from 0, as in JavaScript.\<close>

definition getMonth :: "int \<Rightarrow> int \<Rightarrow> int" where
  "getMonth tz t = fst (snd (civil_from_days ((t + tz) div msPerDay))) - 1"

definition getDate :: "int \<Rightarrow> int \<Rightarrow> int" where
  "getDate tz t = snd (snd (civil_from_days ((t + tz) div msPerDay)))"

text \<open>
  \<^verbatim>\<open>new Date(year, monthIndex, day, hours)\<close>: the fields are local time, and a year from 0
  to 99 means 1900 + year. The callers pass a month index from 0 to 11.
\<close>

definition new_Date :: "int \<Rightarrow> int \<Rightarrow> int \<Rightarrow> int \<Rightarrow> int \<Rightarrow> int" where
  "new_Date tz year monthIndex day hours =
     (let y = (if 0 \<le> year \<and> year \<le> 99 then 1900 + year else year)
      in days_from_civil y (monthIndex + 1) day * msPerDay + hours * msPerHour - tz)"

text \<open>\<^verbatim>\<open>subHours(date, n)\<close> of date-fns: the time value less \<open>n\<close> hours.\<close>

definition subHours :: "int \<Rightarrow> int \<Rightarrow> int" where
  "subHours date n = date - n * msPerHour"

subsection \<open>Decimal strings\<close>

definition digit_char :: "nat \<Rightarrow> char" where
  "digit_char n = ''0123456789'' ! (n mod 10)"

fun toString :: "nat \<Rightarrow> string" where
  "toString n = (if n < 10 then [digit_char n] else toString (n div 10) @ [digit_char (n mod 10)])"

declare toString.simps [simp del]

definition padStart :: "nat \<Rightarrow> char \<Rightarrow> string \<Rightarrow> string" where
  "padStart n c s = replicate (n - length s) c @ s"

definition is_digit :: "char \<Rightarrow> bool" where
  "is_digit c = (c \<in> set ''0123456789'')"

definition digit_val :: "char \<Rightarrow> nat" where
  "digit_val c = of_char c - 48"

definition parse_digits :: "string \<Rightarrow> nat" where
  "parse_digits s = foldl (\<lambda>acc c. 10 * acc + digit_val c) 0 s"

text \<open>\<^verbatim>\<open>s.slice(a, b)\<close> for \<open>0 \<le> a \<le> b\<close>.\<close>

definition slice :: "string \<Rightarrow> nat \<Rightarrow> nat \<Rightarrow> string" where
  "slice s a b = take (b - a) (drop a s)"

text \<open>
  \<^verbatim>\<open>s.replace(pat, "")\<close> with a string pattern: the first occurrence of \<open>pat\<close> is removed.
\<close>

fun replace_first :: "string \<Rightarrow> string \<Rightarrow> string" where
  "replace_first pat [] = []"
| "replace_first pat (c # cs) =
     (if prefix pat (c # cs) then drop (length pat) (c # cs) else c # replace_first pat cs)"

definition endsWith :: "string \<Rightarrow> string \<Rightarrow> bool" where
  "endsWith s ext = suffix ext s"

subsection \<open>TimeKey: roundHours and formatDateStamp\<close>

text \<open>
  \<^verbatim>\<open>roundHours(date, interval)\<close>: \<^verbatim>\<open>Math.floor(hours / interval) * interval\<close> on the UTC
  hour, padded to two characters. An interval of 0 gives \<^verbatim>\<open>NaN\<close>.
\<close>

definition roundedHours :: "int \<Rightarrow> nat \<Rightarrow> nat" where
  "roundedHours date interval = (nat (getUTCHours date) div interval) * interval"

definition roundHours :: "int \<Rightarrow> nat \<Rightarrow> string" where
  "roundHours date interval =
     (if interval = 0 then ''NaN''
      else padStart 2 (CHR ''0'') (toString (roundedHours date interval)))"

text \<open>
  \<^verbatim>\<open>format(date, "yyyyMMdd")\<close> of date-fns prints the local calendar date: the year padded
  to four digits (a year \<open>y \<le> 0\<close> prints as \<open>1 - y\<close>), the month and the day to two.
\<close>

definition format_yyyyMMdd :: "int \<Rightarrow> int \<Rightarrow> string" where
  "format_yyyyMMdd tz date =
     (let y = getFullYear tz date;
          year = (if y > 0 then y else 1 - y)
      in padStart 4 (CHR ''0'') (toString (nat year))
         @ padStart 2 (CHR ''0'') (toString (nat (getMonth tz date + 1)))
         @ padStart 2 (CHR ''0'') (toString (nat (getDate tz date))))"

definition formatDateStamp :: "int \<Rightarrow> int \<Rightarrow> string" where
  "formatDateStamp tz date = format_yyyyMMdd tz date @ roundHours date 6"

text \<open>
  The grid point of a time, truncated in UTC: the hour floored to a multiple of
  \<open>interval\<close>, minutes and seconds zeroed, the UTC date kept.
\<close>

definition truncate_utc :: "int \<Rightarrow> nat \<Rightarrow> int" where
  "truncate_utc t interval =
     (t div msPerDay) * msPerDay + int (roundedHours t interval) * msPerHour"

text \<open>
  Reading a stamp back (\<^verbatim>\<open>checkDataFreshness\<close>): the slices of the stamp are put into
  \<^verbatim>\<open>YYYY-MM-DDTHH:00:00Z\<close> and given to \<^verbatim>\<open>parseISO\<close> of date-fns, which yields an
  Invalid Date (here \<open>None\<close>) unless the four fields are digits naming a calendar date and an
  hour from 0 to 24; the result is a UTC time.
\<close>

definition parseISO_utc :: "string \<Rightarrow> string \<Rightarrow> string \<Rightarrow> string \<Rightarrow> int option" where
  "parseISO_utc ys ms ds hs =
     (if length ys = 4 \<and> length ms = 2 \<and> length ds = 2 \<and> length hs = 2
         \<and> list_all is_digit (ys @ ms @ ds @ hs)
      then
        (let y = int (parse_digits ys); m = int (parse_digits ms);
             d = int (parse_digits ds); h = int (parse_digits hs)
         in if 1 \<le> m \<and> m \<le> 12 \<and> 1 \<le> d \<and> d \<le> daysInMonth y m \<and> h \<le> 24
            then Some (days_from_civil y m d * msPerDay + h * msPerHour)
            else None)
      else None)"

definition parse_stamp :: "string \<Rightarrow> int option" where
  "parse_stamp stamp =
     parseISO_utc (slice stamp 0 4) (slice stamp 4 6) (slice stamp 6 8) (slice stamp 8 10)"

text \<open>
  \<^verbatim>\<open>getLatestAvailableTimestamp\<close>: the current local time with its hour floored to a multiple
  of 6, less 6 hours.
\<close>

definition getLatestAvailableTimestamp :: "int \<Rightarrow> int \<Rightarrow> int" where
  "getLatestAvailableTimestamp tz now =
     (let roundedNow =
            new_Date tz (getFullYear tz now) (getMonth tz now) (getDate tz now)
              ((getHours tz now div 6) * 6)
      in subHours roundedNow 6)"

subsection \<open>Properties of the time keys\<close>

text \<open>
  The calendar date of a day number is a date of the calendar, and it is the date of that
  day number only.
\<close>

lemma civil_from_days_props:
  assumes "civil_from_days z = (y, m, d)"
  shows "days_from_civil y m d = z" "1 \<le> m" "m \<le> 12" "1 \<le> d" "d \<le> daysInMonth y m"
proof -
  define doe where "doe = (z + 719468) mod 146097"
  define era where "era = (z + 719468) div 146097"
  define c where "c = min (doe div 36524) 3"
  define r1 where "r1 = doe - 36524 * c"
  define q where "q = r1 div 1461"
  define r2 where "r2 = r1 - 1461 * q"
  define yr where "yr = min (r2 div 365) 3"
  define doy where "doy = r2 - 365 * yr"
  define yoe where "yoe = 100 * c + 4 * q + yr"
  define mp where "mp = (5 * doy + 2) div 153"
  have doe: "0 \<le> doe" "doe < 146097" by (simp_all add: doe_def)
  have z: "z = era * 146097 + doe - 719468" by (simp add: era_def doe_def)
  have c: "0 \<le> c" "c \<le> 3" using doe by (simp_all add: c_def)
  have r1: "0 \<le> r1" "r1 \<le> 36524" using doe unfolding r1_def c_def by linarith+
  have r1': "c < 3 \<Longrightarrow> r1 < 36524" using doe unfolding r1_def c_def by linarith
  have q: "0 \<le> q" "q \<le> 24" using r1 unfolding q_def by linarith+
  have r2: "0 \<le> r2" "r2 \<le> 1460" using r1 unfolding r2_def q_def by linarith+
  have yr: "0 \<le> yr" "yr \<le> 3" using r2 by (simp_all add: yr_def)
  have doy: "0 \<le> doy" "doy \<le> 365" using r2 unfolding doy_def yr_def by linarith+
  have yoe: "0 \<le> yoe" "yoe < 400" using c q yr unfolding yoe_def by linarith+
  have mp: "0 \<le> mp" "mp \<le> 11" using doy unfolding mp_def by linarith+
  have y4: "yoe div 4 = 25 * c + q" using yr unfolding yoe_def by linarith
  have q100: "4 * q + yr < 100" using q yr by linarith
  have y100: "yoe div 100 = c" using q100 q yr unfolding yoe_def by linarith
  have f: "yoe * 365 + yoe div 4 - yoe div 100 + doy = doe"
    unfolding y4 y100 unfolding yoe_def doy_def r2_def r1_def by (simp add: algebra_simps)
  have e: "(yoe + era * 400) div 400 = era" "(yoe + era * 400) mod 400 = yoe"
    using yoe by simp_all
  have civ: "civil_from_days z =
      (if (if mp < 10 then mp + 3 else mp - 9) \<le> 2 then yoe + era * 400 + 1 else yoe + era * 400,
       if mp < 10 then mp + 3 else mp - 9,
       doy - (153 * mp + 2) div 5 + 1)"
    unfolding civil_from_days_def Let_def
    unfolding doe_def[symmetric] era_def[symmetric]
    unfolding c_def[symmetric] r1_def[symmetric]
    unfolding q_def[symmetric] r2_def[symmetric]
    unfolding yr_def[symmetric] doy_def[symmetric] yoe_def[symmetric] mp_def[symmetric]
    by simp
  with assms have m: "m = (if mp < 10 then mp + 3 else mp - 9)"
    and d: "d = doy - (153 * mp + 2) div 5 + 1"
    and y: "y = (if m \<le> 2 then yoe + era * 400 + 1 else yoe + era * 400)"
    by auto
  show "days_from_civil y m d = z"
    using mp e f unfolding days_from_civil_def Let_def m d y by (auto simp: z)
  show "1 \<le> m" "m \<le> 12" using mp unfolding m by auto
  have lo: "153 * mp \<le> 5 * doy + 2" and hi: "5 * doy + 2 < 153 * mp + 153"
    unfolding mp_def by linarith+
  from lo show "1 \<le> d" unfolding d by linarith
  have leap: "isLeapYear (yoe + era * 400 + 1)" if "doy = 365"
  proof -
    have "yr = 3"
    proof (rule ccontr)
      assume "yr \<noteq> 3"
      then have "yr = r2 div 365" unfolding yr_def by (simp add: min_def split: if_splits)
      then have "r2 - 365 * yr < 365" by linarith
      with that show False unfolding doy_def by simp
    qed
    with that have "r2 = 1460" unfolding doy_def by simp
    then have r1q: "r1 = 1461 * q + 1460" unfolding r2_def by simp
    have y1: "yoe + 1 = 4 * (25 * c + q + 1)" using \<open>yr = 3\<close> unfolding yoe_def by simp
    have m4: "(yoe + era * 400 + 1) mod 4 = 0"
    proof -
      have "yoe + era * 400 + 1 = 4 * (25 * c + q + 1 + era * 100)" using y1 by simp
      then show ?thesis by simp
    qed
    show ?thesis
    proof (cases "q = 24")
      case True
      with r1q r1' c have "c = 3" by (cases "c < 3") auto
      with True \<open>yr = 3\<close> have "yoe = 399" unfolding yoe_def by simp
      then have "(yoe + era * 400 + 1) mod 400 = 0" by simp
      then show ?thesis by (simp add: isLeapYear_def)
    next
      case False
      with q have "q \<le> 23" by simp
      have "yoe = 100 * c + 4 * q + 3" using \<open>yr = 3\<close> unfolding yoe_def by simp
      with q \<open>q \<le> 23\<close> have "(yoe + era * 400 + 1) mod 100 \<noteq> 0" by presburger
      with m4 show ?thesis by (simp add: isLeapYear_def)
    qed
  qed
  have "mp = 0 \<or> mp = 1 \<or> mp = 2 \<or> mp = 3 \<or> mp = 4 \<or> mp = 5 \<or> mp = 6
      \<or> mp = 7 \<or> mp = 8 \<or> mp = 9 \<or> mp = 10 \<or> mp = 11"
    using mp by presburger
  moreover have "d \<le> daysInMonth y m" if "mp = 11"
  proof (cases "doy = 365")
    case True
    with that leap show ?thesis unfolding d m y daysInMonth_def by simp
  next
    case False
    with doy have "doy \<le> 364" by simp
    with that show ?thesis unfolding d m y daysInMonth_def by simp
  qed
  ultimately show "d \<le> daysInMonth y m"
    using lo hi unfolding d m y daysInMonth_def by (elim disjE) simp_all
qed

lemma getUTCHours_range: "0 \<le> getUTCHours t \<and> getUTCHours t < 24"
proof -
  have "0 \<le> t mod 86400000" "t mod 86400000 < 86400000" by simp_all
  then show ?thesis unfolding getUTCHours_def msPerDay_def msPerHour_def by linarith
qed

lemma roundedHours_grid:
  "roundedHours t 6 mod 6 = 0 \<and> int (roundedHours t 6) \<le> getUTCHours t
   \<and> getUTCHours t < int (roundedHours t 6) + 6"
proof -
  have "0 \<le> getUTCHours t" using getUTCHours_range by simp
  then obtain h where h: "getUTCHours t = int h" using nonneg_int_cases by blast
  show ?thesis unfolding roundedHours_def h by simp presburger
qed

lemma digit_char_cases:
  "k < 10 \<Longrightarrow> is_digit (''0123456789'' ! k) \<and> digit_val (''0123456789'' ! k) = k"
proof -
  assume "k < 10"
  then have "k = 0 \<or> k = 1 \<or> k = 2 \<or> k = 3 \<or> k = 4 \<or> k = 5 \<or> k = 6 \<or> k = 7 \<or> k = 8 \<or> k = 9"
    by arith
  then show ?thesis
    by (elim disjE) (simp_all add: is_digit_def digit_val_def)
qed

lemma digit_char_props [simp]:
  "is_digit (digit_char n)" "digit_val (digit_char n) = n mod 10"
  using digit_char_cases[of "n mod 10"] by (simp_all add: digit_char_def)

lemma parse_digits_snoc [simp]:
  "parse_digits (s @ [c]) = 10 * parse_digits s + digit_val c"
  by (simp add: parse_digits_def)

lemma parse_digits_single [simp]: "parse_digits [c] = digit_val c"
  by (simp add: parse_digits_def)

lemma toString_props:
  "list_all is_digit (toString n) \<and> parse_digits (toString n) = n
   \<and> (n < 10 ^ k \<longrightarrow> 0 < k \<longrightarrow> length (toString n) \<le> k)"
proof (induction n arbitrary: k rule: toString.induct)
  case (1 n)
  show ?case
  proof (cases "n < 10")
    case True
    then show ?thesis by (subst (1 2 3) toString.simps) auto
  next
    case False
    have len: "length (toString (n div 10)) \<le> k - 1" if "n < 10 ^ k" "0 < k"
    proof -
      from that False have "1 < k" by (cases "k = 1") auto
      moreover from that have "n div 10 < 10 ^ (k - 1)"
        by (cases k) (simp_all add: less_mult_imp_div_less mult.commute)
      ultimately show ?thesis using "1.IH"[OF False, of "k - 1"] by simp
    qed
    from "1.IH"[OF False, of 1] False len show ?thesis
      by (subst (1 2 3) toString.simps) (auto simp: Suc_le_eq)
  qed
qed

lemma parse_digits_zeros [simp]:
  "parse_digits (replicate j (CHR ''0'') @ s) = parse_digits s"
proof -
  have "foldl (\<lambda>acc c. 10 * acc + digit_val c) 0 (replicate j (CHR ''0'')) = 0"
    by (induction j) (simp_all add: digit_val_def)
  then show ?thesis by (simp add: parse_digits_def)
qed

lemma padStart_toString:
  assumes "n < 10 ^ k" "0 < k"
  shows "length (padStart k (CHR ''0'') (toString n)) = k"
    "list_all is_digit (padStart k (CHR ''0'') (toString n))"
    "parse_digits (padStart k (CHR ''0'') (toString n)) = n"
proof -
  have z: "is_digit (CHR ''0'')" by (simp add: is_digit_def)
  from toString_props[of n k] assms
  show "length (padStart k (CHR ''0'') (toString n)) = k"
    "list_all is_digit (padStart k (CHR ''0'') (toString n))"
    "parse_digits (padStart k (CHR ''0'') (toString n)) = n"
    by (auto simp: padStart_def list_all_iff z)
qed

lemma slice_parts:
  assumes "length a = 4" "length b = 2" "length c = 2" "length d = 2"
  shows "slice (a @ b @ c @ d) 0 4 = a" "slice (a @ b @ c @ d) 4 6 = b"
    "slice (a @ b @ c @ d) 6 8 = c" "slice (a @ b @ c @ d) 8 10 = d"
  using assms by (simp_all add: slice_def)

lemma getUTCHours_truncate:
  "(t div msPerDay) * msPerDay + int (roundedHours t 6) * msPerHour = truncate_utc t 6"
  by (simp add: truncate_utc_def)

lemma roundedHours_lt: "roundedHours t 6 < 24"
proof -
  from getUTCHours_range[of t] obtain h where h: "getUTCHours t = int h" "h < 24"
    by (metis nat_less_iff nonneg_int_cases of_nat_numeral zless_nat_eq_int_zless nat_int)
  show ?thesis unfolding roundedHours_def h by simp (use h(2) in presburger)
qed

text \<open>
  In UTC, and for the years that print with four digits, a key reads back to the UTC grid
  point of its time.
\<close>

lemma formatDateStamp_utc_roundtrip:
  assumes "1 \<le> getFullYear 0 t" "getFullYear 0 t \<le> 9999"
  shows "parse_stamp (formatDateStamp 0 t) = Some (truncate_utc t 6)"
proof -
  obtain y m d where c: "civil_from_days (t div msPerDay) = (y, m, d)"
    by (cases "civil_from_days (t div msPerDay)") auto
  note p = civil_from_days_props[OF c]
  have y: "getFullYear 0 t = y" and m: "getMonth 0 t + 1 = m" and d: "getDate 0 t = d"
    by (simp_all add: getFullYear_def getMonth_def getDate_def c)
  let ?Y = "padStart 4 (CHR ''0'') (toString (nat y))"
  let ?M = "padStart 2 (CHR ''0'') (toString (nat m))"
  let ?D = "padStart 2 (CHR ''0'') (toString (nat d))"
  let ?H = "padStart 2 (CHR ''0'') (toString (roundedHours t 6))"
  have f: "formatDateStamp 0 t = ?Y @ ?M @ ?D @ ?H"
    using assms(1) by (simp add: formatDateStamp_def format_yyyyMMdd_def Let_def y m d roundHours_def)
  have dm: "d \<le> 31" using p(5) by (simp add: daysInMonth_def split: if_splits)
  have Y: "length ?Y = 4" "list_all is_digit ?Y" "parse_digits ?Y = nat y"
    using assms y by (simp_all add: padStart_toString)
  have M: "length ?M = 2" "list_all is_digit ?M" "parse_digits ?M = nat m"
    using p(2,3) by (simp_all add: padStart_toString)
  have D: "length ?D = 2" "list_all is_digit ?D" "parse_digits ?D = nat d"
    using p(4) dm by (simp_all add: padStart_toString)
  have H: "length ?H = 2" "list_all is_digit ?H" "parse_digits ?H = roundedHours t 6"
    using roundedHours_lt[of t] by (simp_all add: padStart_toString)
  have "parse_stamp (formatDateStamp 0 t) = parseISO_utc ?Y ?M ?D ?H"
    unfolding parse_stamp_def f by (simp only: slice_parts[OF Y(1) M(1) D(1) H(1)])
  also have "\<dots> = Some (days_from_civil y m d * msPerDay + int (roundedHours t 6) * msPerHour)"
    using Y M D H p assms y roundedHours_lt[of t]
    by (simp add: parseISO_utc_def Let_def)
  also have "\<dots> = Some (truncate_utc t 6)"
    by (simp add: p(1) truncate_utc_def)
  finally show ?thesis .
qed

text \<open>
  The latest available timestamp is the grid point of the local time, less 6 hours; in
  UTC it is the UTC grid point less 6 hours. (Years 0 to 99 are excluded: \<^verbatim>\<open>new Date\<close>
  reads them as 1900 to 1999.)
\<close>

lemma getLatestAvailableTimestamp_local:
  assumes "\<not> (0 \<le> getFullYear off t \<and> getFullYear off t \<le> 99)"
  shows "getLatestAvailableTimestamp off t = truncate_utc (t + off) 6 - off - 6 * msPerHour"
proof -
  obtain y m d where c: "civil_from_days ((t + off) div msPerDay) = (y, m, d)"
    by (cases "civil_from_days ((t + off) div msPerDay)") auto
  note p = civil_from_days_props[OF c]
  from getUTCHours_range[of "t + off"] have "int (nat (getUTCHours (t + off)) div 6 * 6)
      = getUTCHours (t + off) div 6 * 6"
    by (simp add: zdiv_int)
  with assms p(1) show ?thesis
    by (auto simp: getLatestAvailableTimestamp_def Let_def new_Date_def getFullYear_def getMonth_def
        getDate_def getHours_def c subHours_def truncate_utc_def roundedHours_def)
qed

lemma getLatestAvailableTimestamp_utc:
  assumes "\<not> (0 \<le> getFullYear 0 t \<and> getFullYear 0 t \<le> 99)"
  shows "getLatestAvailableTimestamp 0 t = truncate_utc t 6 - 6 * msPerHour"
  using getLatestAvailableTimestamp_local[OF assms] by simp

text \<open>
  C7. The hour of a key is a multiple of 6 (\<open>roundedHours_grid\<close>) and in UTC the key reads
  back to the grid point (\<open>formatDateStamp_utc_roundtrip\<close>), but not when the process is in
  another time zone: the date of the key is the local date and its hour the UTC hour. In a zone 10 hours east of
  UTC, 2024-03-01T20:00Z gets the key 2024030218, which reads back as 2024-03-02T18:00Z,
  a day after the grid point 2024-03-01T18:00Z of that time.
\<close>

theorem formatDateStamp_mixes_local_date_and_utc_hour:
  "formatDateStamp 36000000 1709323200000 = ''2024030218''
   \<and> parse_stamp (formatDateStamp 36000000 1709323200000) = Some 1709402400000
   \<and> truncate_utc 1709323200000 6 = 1709316000000"
  by code_simp

text \<open>
  C8. The latest available timestamp is the local time floored to a local hour that is a
  multiple of 6, less 6 hours (\<open>getLatestAvailableTimestamp_local\<close>). In a zone one hour east of UTC, at 2024-03-01T12:30Z it is
  2024-03-01T05:00Z, while the UTC grid point of that time less one interval is
  2024-03-01T06:00Z.
\<close>

theorem getLatestAvailableTimestamp_rounds_local_hours:
  "getLatestAvailableTimestamp 3600000 1709296200000 = 1709269200000
   \<and> truncate_utc 1709296200000 6 - 6 * msPerHour = 1709272800000"
  by code_simp

section \<open>The world: clock, cache directories, provider and converter\<close>

text \<open>
  The two cache directories: \<^verbatim>\<open>json-data\<close> (file names with their modification times) and
  \<^verbatim>\<open>grib-data\<close> (file names); \<open>None\<close> is a directory that does not exist yet. The clock
  \<open>now\<close> is what \<^verbatim>\<open>new Date()\<close> reads. \<open>events\<close> is the trace of what the service did, in
  order.
\<close>

datatype event =
    Request int int string
  | Sleep int
  | Exec string bool
  | Unlink string
  | Swallowed string
  | Search "int option" bool
  | SendFile string bool

record world =
  now :: int
  json_data :: "(string \<times> int) list option"
  grib_data :: "string list option"
  nreq :: nat
  nexec :: nat
  events :: "event list"

text \<open>
  The surroundings of the service: the provider's answer to the \<open>n\<close>-th request and the time
  the request takes, whether the body of that answer can be written to disk, and whether the
  \<open>n\<close>-th run of the converter succeeds.
\<close>

datatype http_event = NetError | Status nat

record request =
  req_dir :: string
  req_file :: string

record env =
  tz :: int
  http :: "nat \<Rightarrow> request \<Rightarrow> http_event"
  latency :: "nat \<Rightarrow> nat"
  write_ok :: "nat \<Rightarrow> bool"
  grib2json :: "nat \<Rightarrow> string \<Rightarrow> bool"

datatype error =
    WriteError string
  | DownloadFailed string
  | ConversionError string
  | ENOENT string
  | InvalidTime
  | NoDataWithinSearchLimit

record GribDataResponse =
  stamp :: "string option"
  targetDate :: "int option"
  downloaded :: bool

datatype path = JsonDir | GribDir | JsonFile string | GribFile string

definition json_files :: "world \<Rightarrow> string list" where
  "json_files w = (case json_data w of None \<Rightarrow> [] | Some js \<Rightarrow> map fst js)"

definition grib_files :: "world \<Rightarrow> string list" where
  "grib_files w = (case grib_data w of None \<Rightarrow> [] | Some gs \<Rightarrow> gs)"

definition existsSync :: "world \<Rightarrow> path \<Rightarrow> bool" where
  "existsSync w p =
     (case p of
        JsonDir \<Rightarrow> json_data w \<noteq> None
      | GribDir \<Rightarrow> grib_data w \<noteq> None
      | JsonFile f \<Rightarrow> f \<in> set (json_files w)
      | GribFile f \<Rightarrow> f \<in> set (grib_files w))"

text \<open>
  \<^verbatim>\<open>checkPath(path, mkdir)\<close>: whether the path exists; a missing directory is created when
  \<open>mkdir\<close> is set (the callers set it for the two directories only).
\<close>

definition checkPath :: "world \<Rightarrow> path \<Rightarrow> bool \<Rightarrow> bool \<times> world" where
  "checkPath w p mkdir =
     (if existsSync w p then (True, w)
      else if mkdir then
        (False, case p of
                  JsonDir \<Rightarrow> w\<lparr>json_data := Some []\<rparr>
                | GribDir \<Rightarrow> w\<lparr>grib_data := Some []\<rparr>
                | _ \<Rightarrow> w)
      else (False, w))"

text \<open>A finished write stream leaves the file in \<^verbatim>\<open>grib-data\<close>.\<close>

definition write_grib :: "string \<Rightarrow> world \<Rightarrow> world" where
  "write_grib f w =
     (if f \<in> set (grib_files w) then w else w\<lparr>grib_data := Some (grib_files w @ [f])\<rparr>)"

definition setTimeout :: "int \<Rightarrow> world \<Rightarrow> world" where
  "setTimeout delay w = w\<lparr>now := now w + delay, events := events w @ [Sleep delay]\<rparr>"

definition unavailable :: GribDataResponse where
  "unavailable = \<lparr>stamp = None, targetDate = None, downloaded = False\<rparr>"

definition mk_request :: "int \<Rightarrow> int \<Rightarrow> request" where
  "mk_request z currentDate =
     \<lparr>req_dir = ''/gfs.'' @ format_yyyyMMdd z currentDate @ ''/'' @ roundHours currentDate 6 @ ''/atmos'',
      req_file = ''gfs.t'' @ roundHours currentDate 6 @ ''z.pgrb2.1p00.f000''\<rparr>"

section \<open>RemoteFetcher: getGribData and runQuery\<close>

text \<open>
  The request of index \<open>nreq w\<close> for \<open>currentDate\<close> is issued at \<open>now w\<close> and answered
  \<open>latency\<close> later: \<open>https_get\<close> is the world when the answer arrives.
\<close>

definition https_get :: "env \<Rightarrow> world \<Rightarrow> int \<Rightarrow> world" where
  "https_get e w currentDate =
     w\<lparr>now := now w + int (latency e (nreq w)), nreq := nreq w + 1,
       events := events w @ [Request (now w) currentDate (formatDateStamp (tz e) currentDate)]\<rparr>"

text \<open>
  A response with status 200 (\<open>w1\<close> is the world when it arrives, \<open>n\<close> the request's index):
  when \<^verbatim>\<open>json-data/<stamp>.json\<close> is absent the body is written to
  \<^verbatim>\<open>grib-data/<stamp>.f000\<close>, and a failed write rejects; otherwise nothing is written.
\<close>

definition on_status_200 :: "env \<Rightarrow> world \<Rightarrow> nat \<Rightarrow> int \<Rightarrow> (error + GribDataResponse) \<times> world" where
  "on_status_200 e w1 n currentDate =
     (let stamp_label = formatDateStamp (tz e) currentDate
      in if \<not> fst (checkPath w1 (JsonFile (stamp_label @ ''.json'')) False) then
           (let w2 = snd (checkPath w1 GribDir True)
            in if write_ok e n then
                 (Inr \<lparr>stamp = Some stamp_label, targetDate = Some currentDate,
                       downloaded = True\<rparr>,
                  write_grib (stamp_label @ ''.f000'') w2)
               else (Inl (WriteError stamp_label), w2))
         else
           (Inr \<lparr>stamp = Some stamp_label, targetDate = Some currentDate,
                 downloaded = False\<rparr>, w1))"

text \<open>
  \<^verbatim>\<open>runQuery(currentDate, retryCount)\<close>. The lookback test
  \<^verbatim>\<open>(now - currentDate) / (1000*60*60*24) > 10\<close> is exact on integer milliseconds. A status
  other than 200 and a transport error are handled alike: a retry on the same date after
  \<open>2 ^ retryCount * 1000\<close> ms while \<open>retryCount < 3\<close>, and otherwise a new \<^verbatim>\<open>runQuery\<close> 6
  hours earlier with the count back at 0.
\<close>

function runQuery :: "env \<Rightarrow> world \<Rightarrow> int \<Rightarrow> nat \<Rightarrow> (error + GribDataResponse) \<times> world" where
  "runQuery e w currentDate retryCount =
     (if now w - currentDate > 10 * msPerDay then (Inr unavailable, w)
      else if http e (nreq w) (mk_request (tz e) currentDate) = Status 200 then
        on_status_200 e (https_get e w currentDate) (nreq w) currentDate
      else if retryCount < 3 then
        runQuery e (setTimeout (2 ^ retryCount * 1000) (https_get e w currentDate))
          currentDate (retryCount + 1)
      else runQuery e (https_get e w currentDate) (subHours currentDate 6) 0)"
  by pat_completeness auto
termination
proof (relation "measure (\<lambda>(e, w, d, r). nat (d + 10 * msPerDay - now w + 1))", goal_cases)
  case 1
  show ?case by simp
next
  case (2 e w currentDate retryCount)
  have "(1::int) \<le> 2 ^ retryCount" by simp
  then have "1 + (- int (latency e (nreq w)) - 2 ^ retryCount * 1000) \<le> (0::int)"
    by linarith
  with 2 show ?case by (simp add: setTimeout_def https_get_def)
next
  case (3 e w currentDate retryCount)
  then show ?case by (simp add: subHours_def msPerHour_def https_get_def)
qed

declare runQuery.simps [simp del]

text \<open>
  \<^verbatim>\<open>getGribData(targetDate)\<close>: a target later than the latest available timestamp is
  replaced by it, then \<^verbatim>\<open>runQuery\<close> starts with no retries counted.
\<close>

definition getGribData :: "env \<Rightarrow> world \<Rightarrow> int \<Rightarrow> (error + GribDataResponse) \<times> world" where
  "getGribData e w targetDate0 =
     (let latestAvailable = getLatestAvailableTimestamp (tz e) (now w);
          targetDate = (if targetDate0 > latestAvailable then latestAvailable else targetDate0)
      in runQuery e w targetDate 0)"

subsection \<open>The trace of a fetch\<close>

text \<open>
  What a call added to the trace, the requests in it for one date, the delays in it, and
  whether a request was issued within 10 days of its date.
\<close>

definition new_events :: "world \<Rightarrow> world \<Rightarrow> event list" where
  "new_events w w' = drop (length (events w)) (events w')"

definition is_request_for :: "int \<Rightarrow> event \<Rightarrow> bool" where
  "is_request_for x ev = (case ev of Request t c s \<Rightarrow> c = x | _ \<Rightarrow> False)"

definition requests_for :: "int \<Rightarrow> event list \<Rightarrow> nat" where
  "requests_for x evs = length (filter (is_request_for x) evs)"

definition sleeps :: "event list \<Rightarrow> int list" where
  "sleeps evs = concat (map (\<lambda>ev. case ev of Sleep k \<Rightarrow> [k] | _ \<Rightarrow> []) evs)"

definition within_lookback :: "event \<Rightarrow> bool" where
  "within_lookback ev = (case ev of Request t c s \<Rightarrow> t - c \<le> 10 * msPerDay | _ \<Rightarrow> True)"

text \<open>
  The shape of the trace of a fetch that starts on the date \<open>d\<close>, by the place \<open>i\<close> of an
  event in it: seven places for each date, the dates 6 hours apart; at the even places of
  the seven stand requests for the date, at the odd places the delays 1000, 2000 and 4000 ms.
\<close>

definition fetch_pattern :: "int \<Rightarrow> nat \<Rightarrow> event \<Rightarrow> bool" where
  "fetch_pattern d i ev =
     (if even (i mod 7) then is_request_for (d - int (i div 7) * (6 * msPerHour)) ev
      else ev = Sleep (2 ^ (i mod 7 div 2) * 1000))"

subsection \<open>Properties of runQuery\<close>

lemma backoff_le: "(a::int) + int l + 2 ^ r * 1000 \<le> x \<Longrightarrow> a \<le> x"
proof -
  assume h: "a + int l + 2 ^ r * 1000 \<le> x"
  have "(0::int) \<le> 2 ^ r" by simp
  with h show ?thesis by linarith
qed

lemma https_get_simps [simp]:
  "now (https_get e w d) = now w + int (latency e (nreq w))"
  "json_data (https_get e w d) = json_data w"
  "grib_data (https_get e w d) = grib_data w"
  "nexec (https_get e w d) = nexec w"
  "nreq (https_get e w d) = nreq w + 1"
  "events (https_get e w d) = events w @ [Request (now w) d (formatDateStamp (tz e) d)]"
  by (simp_all add: https_get_def)

lemma setTimeout_simps [simp]:
  "now (setTimeout k w) = now w + k"
  "json_data (setTimeout k w) = json_data w"
  "grib_data (setTimeout k w) = grib_data w"
  "nexec (setTimeout k w) = nexec w"
  "nreq (setTimeout k w) = nreq w"
  "events (setTimeout k w) = events w @ [Sleep k]"
  by (simp_all add: setTimeout_def)

lemma write_grib_simps [simp]:
  "now (write_grib f w) = now w"
  "json_data (write_grib f w) = json_data w"
  "nexec (write_grib f w) = nexec w"
  "nreq (write_grib f w) = nreq w"
  "events (write_grib f w) = events w"
  "set (grib_files (write_grib f w)) = insert f (set (grib_files w))"
  by (auto simp: write_grib_def grib_files_def)

lemma checkPath_frame [simp]:
  "now (snd (checkPath w p m)) = now w"
  "nexec (snd (checkPath w p m)) = nexec w"
  "nreq (snd (checkPath w p m)) = nreq w"
  "events (snd (checkPath w p m)) = events w"
  "json_files (snd (checkPath w p m)) = json_files w"
  "grib_files (snd (checkPath w p m)) = grib_files w"
  "fst (checkPath w p m) = existsSync w p"
  by (auto simp: checkPath_def json_files_def grib_files_def existsSync_def split: path.splits option.splits)

lemma checkPath_GribDir_json [simp]: "json_data (snd (checkPath w GribDir m)) = json_data w"
  by (simp add: checkPath_def)

lemma checkPath_no_mkdir [simp]: "snd (checkPath w p False) = w"
  by (simp add: checkPath_def)

lemma runQuery_result_induct [case_names far ok retry stepback]:
  assumes far: "\<And>e w d r. now w - d > 10 * msPerDay \<Longrightarrow> P e w d r (Inr unavailable, w)"
    and ok: "\<And>e w d r. \<not> now w - d > 10 * msPerDay \<Longrightarrow>
               http e (nreq w) (mk_request (tz e) d) = Status 200 \<Longrightarrow>
               P e w d r (on_status_200 e (https_get e w d) (nreq w) d)"
    and retry: "\<And>e w d r. \<not> now w - d > 10 * msPerDay \<Longrightarrow>
               http e (nreq w) (mk_request (tz e) d) \<noteq> Status 200 \<Longrightarrow> r < 3 \<Longrightarrow>
               P e (setTimeout (2 ^ r * 1000) (https_get e w d)) d (r + 1)
                 (runQuery e (setTimeout (2 ^ r * 1000) (https_get e w d)) d (r + 1)) \<Longrightarrow>
               P e w d r (runQuery e (setTimeout (2 ^ r * 1000) (https_get e w d)) d (r + 1))"
    and stepback: "\<And>e w d r. \<not> now w - d > 10 * msPerDay \<Longrightarrow>
               http e (nreq w) (mk_request (tz e) d) \<noteq> Status 200 \<Longrightarrow> \<not> r < 3 \<Longrightarrow>
               P e (https_get e w d) (subHours d 6) 0
                 (runQuery e (https_get e w d) (subHours d 6) 0) \<Longrightarrow>
               P e w d r (runQuery e (https_get e w d) (subHours d 6) 0)"
  shows "P e w d r (runQuery e w d r)"
proof (induction e w d r rule: runQuery.induct)
  case (1 e w currentDate retryCount)
  show ?case
  proof (cases "now w - currentDate > 10 * msPerDay")
    case True
    then show ?thesis using far[OF True] by (simp add: runQuery.simps)
  next
    case nfar: False
    show ?thesis
    proof (cases "http e (nreq w) (mk_request (tz e) currentDate) = Status 200")
      case True
      then show ?thesis using ok[OF nfar True] nfar by (simp add: runQuery.simps)
    next
      case fail: False
      show ?thesis
      proof (cases "retryCount < 3")
        case True
        have "runQuery e w currentDate retryCount =
              runQuery e (setTimeout (2 ^ retryCount * 1000) (https_get e w currentDate))
                currentDate (retryCount + 1)"
          using nfar fail True by (subst runQuery.simps) simp
        then show ?thesis using retry[OF nfar fail True "1.IH"(1)[OF nfar fail True]] by simp
      next
        case False
        have "runQuery e w currentDate retryCount =
              runQuery e (https_get e w currentDate) (subHours currentDate 6) 0"
          using nfar fail False by (subst runQuery.simps) simp
        then show ?thesis using stepback[OF nfar fail False "1.IH"(2)[OF nfar fail False]] by simp
      qed
    qed
  qed
qed

lemma on_status_200_frame:
  "now (snd (on_status_200 e w1 n d)) = now w1"
  "json_data (snd (on_status_200 e w1 n d)) = json_data w1"
  "nexec (snd (on_status_200 e w1 n d)) = nexec w1"
  "nreq (snd (on_status_200 e w1 n d)) = nreq w1"
  "events (snd (on_status_200 e w1 n d)) = events w1"
  by (auto simp: on_status_200_def Let_def)

lemma runQuery_frame:
  "json_data (snd (runQuery e w d r)) = json_data w \<and> now w \<le> now (snd (runQuery e w d r))
   \<and> nexec (snd (runQuery e w d r)) = nexec w \<and> nreq w \<le> nreq (snd (runQuery e w d r))"
proof (rule runQuery_result_induct[where P = "\<lambda>e w d r res.
    json_data (snd res) = json_data w \<and> now w \<le> now (snd res)
    \<and> nexec (snd res) = nexec w \<and> nreq w \<le> nreq (snd res)"], goal_cases)
  case (1 e w d r)
  show ?case by simp
next
  case (2 e w d r)
  show ?case by (simp add: on_status_200_frame)
next
  case (3 e w d r)
  from 3(4) show ?case by (auto dest: backoff_le)
next
  case (4 e w d r)
  then show ?case by simp
qed

lemma new_events_same [simp]: "new_events w w = []"
  by (simp add: new_events_def)

lemma new_events_append: "events w' = events w @ es \<Longrightarrow> new_events w w' = es"
  by (simp add: new_events_def)

lemma new_events_trans:
  assumes "events w1 = events w @ es" and "events w' = events w1 @ new_events w1 w'"
  shows "new_events w w' = es @ new_events w1 w'"
proof -
  define X where "X = new_events w1 w'"
  have "events w' = events w @ es @ X" using assms by (simp add: X_def)
  then have "new_events w w' = es @ X" by (simp add: new_events_def)
  then show ?thesis by (simp add: X_def)
qed

lemma runQuery_events_prefix:
  "events (snd (runQuery e w d r)) = events w @ new_events w (snd (runQuery e w d r))"
proof (rule runQuery_result_induct[where P = "\<lambda>e w d r res.
    events (snd res) = events w @ new_events w (snd res)"], goal_cases)
  case (1 e w d r)
  show ?case by simp
next
  case (2 e w d r)
  show ?case by (simp add: on_status_200_frame new_events_def)
next
  case (3 e w d r)
  then show ?case by (simp add: new_events_def) (metis append_eq_conv_conj)
next
  case (4 e w d r)
  then show ?case by (simp add: new_events_def) (metis append_eq_conv_conj)
qed

lemma new_events_retry:
  "new_events w (snd (runQuery e (setTimeout k (https_get e w d)) d' r')) =
     [Request (now w) d (formatDateStamp (tz e) d), Sleep k]
     @ new_events (setTimeout k (https_get e w d)) (snd (runQuery e (setTimeout k (https_get e w d)) d' r'))"
  by (rule new_events_trans[OF _ runQuery_events_prefix]) simp

lemma new_events_stepback:
  "new_events w (snd (runQuery e (https_get e w d) d' r')) =
     [Request (now w) d (formatDateStamp (tz e) d)]
     @ new_events (https_get e w d) (snd (runQuery e (https_get e w d) d' r'))"
  by (rule new_events_trans[OF _ runQuery_events_prefix]) simp

lemma new_events_ok:
  "new_events w (snd (on_status_200 e (https_get e w d) n d)) =
     [Request (now w) d (formatDateStamp (tz e) d)]"
  by (simp add: new_events_def on_status_200_frame)

lemma runQuery_within_lookback:
  "list_all within_lookback (new_events w (snd (runQuery e w d r)))"
proof (rule runQuery_result_induct[where P = "\<lambda>e w d r res.
    list_all within_lookback (new_events w (snd res))"], goal_cases)
  case (1 e w d r)
  show ?case by simp
next
  case (2 e w d r)
  then show ?case by (simp add: new_events_ok within_lookback_def)
next
  case (3 e w d r)
  then show ?case by (simp add: new_events_retry within_lookback_def)
next
  case (4 e w d r)
  then show ?case by (simp add: new_events_stepback within_lookback_def)
qed

lemma sleeps_Cons_simps [simp]:
  "sleeps [] = []"
  "sleeps (Sleep k # evs) = k # sleeps evs"
  "sleeps (Request a b c # evs) = sleeps evs"
  by (simp_all add: sleeps_def)

lemma map_upt_shift:
  "f 0 # map (\<lambda>i. f (Suc i)) [0..<n] = map f [0..<Suc n]"
  by (simp add: map_upt_Suc del: upt_Suc)

lemma runQuery_backoff:
  "r \<le> 3 \<Longrightarrow> sleeps (new_events w (snd (runQuery e w d r))) =
     map (\<lambda>i. 2 ^ ((i + r) mod 3) * 1000)
       [0..<length (sleeps (new_events w (snd (runQuery e w d r))))]"
proof (rule runQuery_result_induct[where P = "\<lambda>e w d r res. r \<le> 3 \<longrightarrow>
    sleeps (new_events w (snd res)) =
      map (\<lambda>i. 2 ^ ((i + r) mod 3) * 1000) [0..<length (sleeps (new_events w (snd res)))]",
    rule_format], goal_cases)
  case (1 e w d r)
  show ?case by simp
next
  case (2 e w d r)
  show ?case by (simp add: new_events_ok)
next
  case (3 e w d r)
  let ?rest = "sleeps (new_events (setTimeout (2 ^ r * 1000) (https_get e w d))
      (snd (runQuery e (setTimeout (2 ^ r * 1000) (https_get e w d)) d (r + 1))))"
  from 3 have ih: "?rest = map (\<lambda>i. 2 ^ ((i + (r + 1)) mod 3) * 1000) [0..<length ?rest]"
    by simp
  have "(2::int) ^ r * 1000 # map (\<lambda>i. 2 ^ ((i + (r + 1)) mod 3) * 1000) [0..<length ?rest]
      = map (\<lambda>i. 2 ^ ((i + r) mod 3) * 1000) [0..<Suc (length ?rest)]"
    using \<open>r < 3\<close> map_upt_shift[of "\<lambda>i. (2::int) ^ ((i + r) mod 3) * 1000" "length ?rest"]
    by simp
  with ih have "(2::int) ^ r * 1000 # ?rest
      = map (\<lambda>i. 2 ^ ((i + r) mod 3) * 1000) [0..<Suc (length ?rest)]"
    by simp
  then show ?case by (simp add: new_events_retry del: upt_Suc)
next
  case (4 e w d r)
  then have "r = 3" by simp
  with 4 show ?case by (simp add: new_events_stepback)
qed


lemma runQuery_sleeps_nth:
  assumes "i < length (sleeps (new_events w (snd (runQuery e w d 0))))"
  shows "sleeps (new_events w (snd (runQuery e w d 0))) ! i = 2 ^ (i mod 3) * 1000"
proof -
  let ?s = "sleeps (new_events w (snd (runQuery e w d 0)))"
  have "?s = map (\<lambda>i. 2 ^ (i mod 3) * 1000) [0..<length ?s]"
    using runQuery_backoff[of 0 w e d] by simp
  then have "?s ! i = map (\<lambda>i. 2 ^ (i mod 3) * 1000) [0..<length ?s] ! i"
    by simp
  also have "\<dots> = 2 ^ (i mod 3) * 1000"
    using assms by (simp del: upt_Suc)
  finally show ?thesis .
qed

lemma runQuery_requests_for:
  "r \<le> 3 \<Longrightarrow> requests_for x (new_events w (snd (runQuery e w d r)))
      \<le> (if x = d then 4 - r else if x < d then 4 else 0)"
proof (rule runQuery_result_induct[where P = "\<lambda>e w d r res. r \<le> 3 \<longrightarrow>
    requests_for x (new_events w (snd res))
      \<le> (if x = d then 4 - r else if x < d then 4 else 0)", rule_format], goal_cases)
  case (1 e w d r)
  show ?case by (simp add: requests_for_def)
next
  case (2 e w d r)
  then show ?case by (auto simp: new_events_ok requests_for_def is_request_for_def)
next
  case (3 e w d r)
  then show ?case by (auto simp: new_events_retry requests_for_def is_request_for_def)
next
  case (4 e w d r)
  then have "r = 3" by simp
  with 4 show ?case
    by (auto simp: new_events_stepback requests_for_def is_request_for_def subHours_def msPerHour_def
        split: if_splits)
qed

lemma fetch_pattern_next_date:
  "fetch_pattern (subHours d 6) j ev \<Longrightarrow> fetch_pattern d (j + 7) ev"
proof -
  have "(j + 7) mod 7 = j mod 7" "(j + 7) div 7 = j div 7 + 1" by simp_all
  moreover have "d - int (j div 7 + 1) * (6 * msPerHour)
      = subHours d 6 - int (j div 7) * (6 * msPerHour)"
    by (simp add: subHours_def algebra_simps)
  ultimately show "fetch_pattern (subHours d 6) j ev \<Longrightarrow> fetch_pattern d (j + 7) ev"
    by (simp add: fetch_pattern_def)
qed

lemma runQuery_pattern:
  "r \<le> 3 \<Longrightarrow> i < length (new_events w (snd (runQuery e w d r))) \<Longrightarrow>
     fetch_pattern d (i + 2 * r) (new_events w (snd (runQuery e w d r)) ! i)"
proof (rule runQuery_result_induct[where P = "\<lambda>e w d r res. r \<le> 3 \<longrightarrow>
    (\<forall>i < length (new_events w (snd res)).
       fetch_pattern d (i + 2 * r) (new_events w (snd res) ! i))",
    rule_format], goal_cases)
  case (1 e w d r)
  then show ?case by simp
next
  case (2 e w d r i)
  then have "r = 0 \<or> r = 1 \<or> r = 2 \<or> r = 3" by arith
  with 2 show ?case
    by (auto simp: new_events_ok fetch_pattern_def is_request_for_def)
next
  case (3 e w d r i)
  let ?w1 = "setTimeout (2 ^ r * 1000) (https_get e w d)"
  define rest where "rest = new_events ?w1 (snd (runQuery e ?w1 d (r + 1)))"
  define T where "T = new_events w (snd (runQuery e ?w1 d (r + 1)))"
  from \<open>r < 3\<close> have r: "r = 0 \<or> r = 1 \<or> r = 2" by arith
  have ih: "fetch_pattern d (j + 2 * (r + 1)) (rest ! j)" if "j < length rest" for j
    using 3 that by (simp add: rest_def)
  have tr: "T = Request (now w) d (formatDateStamp (tz e) d) # Sleep (2 ^ r * 1000) # rest"
    by (simp add: T_def rest_def new_events_retry)
  from 3 have len: "i < length T" by (simp add: T_def)
  have "fetch_pattern d (i + 2 * r) (T ! i)"
  proof (cases i)
    case 0
    have "fetch_pattern d (2 * r) (Request (now w) d (formatDateStamp (tz e) d))"
      using r by (auto simp: fetch_pattern_def is_request_for_def)
    with 0 show ?thesis by (simp add: tr)
  next
    case (Suc i1)
    show ?thesis
    proof (cases i1)
      case 0
      have "fetch_pattern d (1 + 2 * r) (Sleep (2 ^ r * 1000))"
        using r by (auto simp: fetch_pattern_def)
      with 0 Suc show ?thesis by (simp add: tr)
    next
      case (Suc j)
      with \<open>i = Suc i1\<close> len have "j < length rest" by (simp add: tr)
      from ih[OF this] Suc \<open>i = Suc i1\<close> show ?thesis by (simp add: tr)
    qed
  qed
  then show ?case by (simp add: T_def)
next
  case (4 e w d r i)
  then have r: "r = 3" by simp
  let ?w1 = "https_get e w d"
  define rest where "rest = new_events ?w1 (snd (runQuery e ?w1 (subHours d 6) 0))"
  define T where "T = new_events w (snd (runQuery e ?w1 (subHours d 6) 0))"
  have ih: "fetch_pattern (subHours d 6) j (rest ! j)" if "j < length rest" for j
    using 4 that by (simp add: rest_def)
  have tr: "T = Request (now w) d (formatDateStamp (tz e) d) # rest"
    by (simp add: T_def rest_def new_events_stepback)
  from 4 have len: "i < length T" by (simp add: T_def)
  have "fetch_pattern d (i + 2 * r) (T ! i)"
  proof (cases i)
    case 0
    with r show ?thesis by (simp add: tr fetch_pattern_def is_request_for_def)
  next
    case (Suc j)
    with len have "j < length rest" by (simp add: tr)
    from fetch_pattern_next_date[OF ih[OF this]] Suc r show ?thesis
      by (simp add: tr add.commute)
  qed
  then show ?case by (simp add: T_def)
qed

subsection \<open>Retries, backoff and the lookback bound\<close>

text \<open>
  Concrete surroundings used to instantiate the theorems: a provider that answers every
  request with 200 or with 404, in UTC and without delay, and a world with no cache at
  time \<open>t\<close>.
\<close>

definition provider_up :: env where
  "provider_up = \<lparr>tz = 0, http = (\<lambda>n r. Status 200), latency = (\<lambda>n. 0),
     write_ok = (\<lambda>n. True), grib2json = (\<lambda>n s. True)\<rparr>"

definition provider_down :: env where
  "provider_down = \<lparr>tz = 0, http = (\<lambda>n r. Status 404), latency = (\<lambda>n. 0),
     write_ok = (\<lambda>n. True), grib2json = (\<lambda>n s. True)\<rparr>"

definition empty_cache :: "int \<Rightarrow> world" where
  "empty_cache t = \<lparr>now = t, json_data = None, grib_data = None, nreq = 0, nexec = 0,
     events = []\<rparr>"

text \<open>
  The world after the request for \<open>d\<close> and its three retries have all been answered.
\<close>

definition exhausted :: "env \<Rightarrow> world \<Rightarrow> int \<Rightarrow> world" where
  "exhausted e w d =
     https_get e (setTimeout 4000 (https_get e (setTimeout 2000
       (https_get e (setTimeout 1000 (https_get e w d)) d)) d)) d"

lemma getGribData_requests_for:
  "requests_for x (new_events w (snd (getGribData e w t))) \<le> 4"
proof -
  have "requests_for x (new_events w (snd (runQuery e w d 0))) \<le> 4" for d
    using runQuery_requests_for[of 0 x w e d] by (simp split: if_splits)
  then show ?thesis by (simp add: getGribData_def Let_def)
qed

lemma runQuery_exhaust:
  assumes fails: "\<forall>i<4. http e (nreq w + i) (mk_request (tz e) d) \<noteq> Status 200"
    and near: "now w + int (latency e (nreq w)) + int (latency e (nreq w + 1))
                 + int (latency e (nreq w + 2)) + 7000 - d \<le> 10 * msPerDay"
  shows "runQuery e w d 0 = runQuery e (exhausted e w d) (d - 6 * msPerHour) 0"
proof -
  let ?w1 = "setTimeout 1000 (https_get e w d)"
  let ?w2 = "setTimeout 2000 (https_get e ?w1 d)"
  let ?w3 = "setTimeout 4000 (https_get e ?w2 d)"
  have f0: "http e (nreq w) (mk_request (tz e) d) \<noteq> Status 200"
    using fails[rule_format, of 0] by simp
  have f1: "http e (nreq w + 1) (mk_request (tz e) d) \<noteq> Status 200"
    using fails[rule_format, of 1] by simp
  have f2: "http e (nreq w + 2) (mk_request (tz e) d) \<noteq> Status 200"
    using fails[rule_format, of 2] by simp
  have f3: "http e (Suc (Suc (Suc (nreq w)))) (mk_request (tz e) d) \<noteq> Status 200"
    using fails[rule_format, of 3] by (simp add: numeral_3_eq_3)
  have s0: "runQuery e w d 0 = runQuery e ?w1 d (Suc 0)"
    using f0 near by (subst runQuery.simps) simp
  have s1: "runQuery e ?w1 d (Suc 0) = runQuery e ?w2 d (Suc (Suc 0))"
    using f1 near by (subst runQuery.simps) simp
  have s2: "runQuery e ?w2 d (Suc (Suc 0)) = runQuery e ?w3 d (Suc (Suc (Suc 0)))"
    using f2 near by (subst runQuery.simps) simp
  have s3: "runQuery e ?w3 d (Suc (Suc (Suc 0))) =
            runQuery e (https_get e ?w3 d) (subHours d 6) 0"
    using f3 near by (subst runQuery.simps) (simp add: numeral_3_eq_3)
  show ?thesis
    using s0 s1 s2 s3 by (simp add: exhausted_def subHours_def)
qed

lemma exhausted_fields:
  "events (exhausted e w d) = events w @
        [Request (now w) d (formatDateStamp (tz e) d), Sleep 1000,
         Request (now w + int (latency e (nreq w)) + 1000) d (formatDateStamp (tz e) d),
         Sleep 2000,
         Request (now w + int (latency e (nreq w)) + 1000
                    + int (latency e (nreq w + 1)) + 2000) d (formatDateStamp (tz e) d),
         Sleep 4000,
         Request (now w + int (latency e (nreq w)) + 1000
                    + int (latency e (nreq w + 1)) + 2000
                    + int (latency e (nreq w + 2)) + 4000) d (formatDateStamp (tz e) d)]"
  "now (exhausted e w d) = now w + int (latency e (nreq w)) + int (latency e (nreq w + 1))
      + int (latency e (nreq w + 2)) + int (latency e (nreq w + 3)) + 7000"
  "nreq (exhausted e w d) = nreq w + 4"
  "json_data (exhausted e w d) = json_data w"
  "grib_data (exhausted e w d) = grib_data w"
  "nexec (exhausted e w d) = nexec w"
  by (simp_all add: exhausted_def numeral_3_eq_3)

text \<open>
  C1. In every run of \<^verbatim>\<open>runQuery\<close> that starts with no retries counted, and so in every
  fetch of \<^verbatim>\<open>getGribData\<close>, no date gets more than four requests (one and three retries),
  the trace has the shape of \<open>fetch_pattern\<close> (requests for one date with the delays 1000,
  2000 and 4000 ms between them, then the same for the date 6 hours earlier), and the
  \<open>i\<close>-th delay of the run is \<open>2 ^ (i mod 3)\<close> seconds. When the request for a date and its three retries all fail, by
  status or by transport error, within the lookback bound, the trace of the run begins with
  exactly the four requests for that date with the delays 1000, 2000 and 4000 ms between
  them, and the run continues as a fresh \<^verbatim>\<open>runQuery\<close> (retry count 0: lookback test,
  request, cache test) on the date 6 hours earlier, whose trace is the rest; that run starts
  with the caches as they were, four requests later.
\<close>

theorem runQuery_three_retries_then_step_back:
  "(\<forall>x. requests_for x (new_events w (snd (runQuery e w d 0))) \<le> 4)
   \<and> (\<forall>i < length (new_events w (snd (runQuery e w d 0))).
         fetch_pattern d i (new_events w (snd (runQuery e w d 0)) ! i))
   \<and> (\<forall>i < length (sleeps (new_events w (snd (runQuery e w d 0)))).
         sleeps (new_events w (snd (runQuery e w d 0))) ! i = 2 ^ (i mod 3) * 1000)
   \<and> (\<forall>x t. requests_for x (new_events w (snd (getGribData e w t))) \<le> 4)
   \<and> (\<forall>t. \<forall>i < length (new_events w (snd (getGribData e w t))).
         fetch_pattern (min t (getLatestAvailableTimestamp (tz e) (now w))) i
           (new_events w (snd (getGribData e w t)) ! i))
   \<and> (\<forall>t. \<forall>i < length (sleeps (new_events w (snd (getGribData e w t)))).
         sleeps (new_events w (snd (getGribData e w t))) ! i = 2 ^ (i mod 3) * 1000)
   \<and> ((\<forall>i<4. http e (nreq w + i) (mk_request (tz e) d) \<noteq> Status 200)
        \<and> now w + int (latency e (nreq w)) + int (latency e (nreq w + 1))
             + int (latency e (nreq w + 2)) + 7000 - d \<le> 10 * msPerDay \<longrightarrow>
       runQuery e w d 0 = runQuery e (exhausted e w d) (d - 6 * msPerHour) 0
       \<and> new_events w (snd (runQuery e w d 0)) =
           [Request (now w) d (formatDateStamp (tz e) d), Sleep 1000,
            Request (now w + int (latency e (nreq w)) + 1000) d (formatDateStamp (tz e) d),
            Sleep 2000,
            Request (now w + int (latency e (nreq w)) + 1000
                       + int (latency e (nreq w + 1)) + 2000) d (formatDateStamp (tz e) d),
            Sleep 4000,
            Request (now w + int (latency e (nreq w)) + 1000
                       + int (latency e (nreq w + 1)) + 2000
                       + int (latency e (nreq w + 2)) + 4000) d (formatDateStamp (tz e) d)]
           @ new_events (exhausted e w d)
               (snd (runQuery e (exhausted e w d) (d - 6 * msPerHour) 0))
       \<and> requests_for d (new_events w (snd (runQuery e w d 0))) = 4
       \<and> now (exhausted e w d) = now w + int (latency e (nreq w))
             + int (latency e (nreq w + 1)) + int (latency e (nreq w + 2))
             + int (latency e (nreq w + 3)) + 7000
       \<and> nreq (exhausted e w d) = nreq w + 4
       \<and> json_data (exhausted e w d) = json_data w
       \<and> grib_data (exhausted e w d) = grib_data w)"
proof -
  have a: "requests_for x (new_events w (snd (runQuery e w d 0))) \<le> 4" for x
    using runQuery_requests_for[of 0 x w e d] by (simp split: if_splits)
  have b: "\<forall>i < length (sleeps (new_events w (snd (runQuery e w d 0)))).
         sleeps (new_events w (snd (runQuery e w d 0))) ! i = 2 ^ (i mod 3) * 1000"
    using runQuery_sleeps_nth by blast
  have c: "\<forall>t. \<forall>i < length (sleeps (new_events w (snd (getGribData e w t)))).
         sleeps (new_events w (snd (getGribData e w t))) ! i = 2 ^ (i mod 3) * 1000"
    using runQuery_sleeps_nth by (simp add: getGribData_def Let_def)
  have d: "runQuery e w d 0 = runQuery e (exhausted e w d) (d - 6 * msPerHour) 0
       \<and> new_events w (snd (runQuery e w d 0)) =
           [Request (now w) d (formatDateStamp (tz e) d), Sleep 1000,
            Request (now w + int (latency e (nreq w)) + 1000) d (formatDateStamp (tz e) d),
            Sleep 2000,
            Request (now w + int (latency e (nreq w)) + 1000
                       + int (latency e (nreq w + 1)) + 2000) d (formatDateStamp (tz e) d),
            Sleep 4000,
            Request (now w + int (latency e (nreq w)) + 1000
                       + int (latency e (nreq w + 1)) + 2000
                       + int (latency e (nreq w + 2)) + 4000) d (formatDateStamp (tz e) d)]
           @ new_events (exhausted e w d)
               (snd (runQuery e (exhausted e w d) (d - 6 * msPerHour) 0))
       \<and> requests_for d (new_events w (snd (runQuery e w d 0))) = 4"
    if fails: "\<forall>i<4. http e (nreq w + i) (mk_request (tz e) d) \<noteq> Status 200"
      and near: "now w + int (latency e (nreq w)) + int (latency e (nreq w + 1))
             + int (latency e (nreq w + 2)) + 7000 - d \<le> 10 * msPerDay"
  proof -
    let ?w4 = "exhausted e w d"
    let ?d' = "d - 6 * msPerHour"
    have eq: "runQuery e w d 0 = runQuery e ?w4 ?d' 0"
      by (rule runQuery_exhaust[OF fails near])
    have tr: "new_events w (snd (runQuery e ?w4 ?d' 0)) =
           [Request (now w) d (formatDateStamp (tz e) d), Sleep 1000,
            Request (now w + int (latency e (nreq w)) + 1000) d (formatDateStamp (tz e) d),
            Sleep 2000,
            Request (now w + int (latency e (nreq w)) + 1000
                       + int (latency e (nreq w + 1)) + 2000) d (formatDateStamp (tz e) d),
            Sleep 4000,
            Request (now w + int (latency e (nreq w)) + 1000
                       + int (latency e (nreq w + 1)) + 2000
                       + int (latency e (nreq w + 2)) + 4000) d (formatDateStamp (tz e) d)]
           @ new_events ?w4 (snd (runQuery e ?w4 ?d' 0))"
      by (rule new_events_trans[OF exhausted_fields(1) runQuery_events_prefix])
    have "requests_for d (new_events ?w4 (snd (runQuery e ?w4 ?d' 0))) = 0"
      using runQuery_requests_for[of 0 d ?w4 e ?d'] by (simp add: msPerHour_def)
    then have "requests_for d (new_events w (snd (runQuery e ?w4 ?d' 0))) = 4"
      by (simp add: tr requests_for_def is_request_for_def)
    with eq tr show ?thesis by simp
  qed
  have g: "\<forall>x t. requests_for x (new_events w (snd (getGribData e w t))) \<le> 4"
    using getGribData_requests_for by blast
  from a have a': "\<forall>x. requests_for x (new_events w (snd (runQuery e w d 0))) \<le> 4"
    by blast
  have e: "(\<forall>i<4. http e (nreq w + i) (mk_request (tz e) d) \<noteq> Status 200)
        \<and> now w + int (latency e (nreq w)) + int (latency e (nreq w + 1))
             + int (latency e (nreq w + 2)) + 7000 - d \<le> 10 * msPerDay \<longrightarrow>
       runQuery e w d 0 = runQuery e (exhausted e w d) (d - 6 * msPerHour) 0
       \<and> new_events w (snd (runQuery e w d 0)) =
           [Request (now w) d (formatDateStamp (tz e) d), Sleep 1000,
            Request (now w + int (latency e (nreq w)) + 1000) d (formatDateStamp (tz e) d),
            Sleep 2000,
            Request (now w + int (latency e (nreq w)) + 1000
                       + int (latency e (nreq w + 1)) + 2000) d (formatDateStamp (tz e) d),
            Sleep 4000,
            Request (now w + int (latency e (nreq w)) + 1000
                       + int (latency e (nreq w + 1)) + 2000
                       + int (latency e (nreq w + 2)) + 4000) d (formatDateStamp (tz e) d)]
           @ new_events (exhausted e w d)
               (snd (runQuery e (exhausted e w d) (d - 6 * msPerHour) 0))
       \<and> requests_for d (new_events w (snd (runQuery e w d 0))) = 4
       \<and> now (exhausted e w d) = now w + int (latency e (nreq w))
             + int (latency e (nreq w + 1)) + int (latency e (nreq w + 2))
             + int (latency e (nreq w + 3)) + 7000
       \<and> nreq (exhausted e w d) = nreq w + 4
       \<and> json_data (exhausted e w d) = json_data w
       \<and> grib_data (exhausted e w d) = grib_data w"
  proof (intro impI conjI)
    assume h: "(\<forall>i<4. http e (nreq w + i) (mk_request (tz e) d) \<noteq> Status 200)
        \<and> now w + int (latency e (nreq w)) + int (latency e (nreq w + 1))
             + int (latency e (nreq w + 2)) + 7000 - d \<le> 10 * msPerDay"
    note dd = d[OF conjunct1[OF h] conjunct2[OF h]]
    show "runQuery e w d 0 = runQuery e (exhausted e w d) (d - 6 * msPerHour) 0"
      by (rule dd[THEN conjunct1])
    show "new_events w (snd (runQuery e w d 0)) =
           [Request (now w) d (formatDateStamp (tz e) d), Sleep 1000,
            Request (now w + int (latency e (nreq w)) + 1000) d (formatDateStamp (tz e) d),
            Sleep 2000,
            Request (now w + int (latency e (nreq w)) + 1000
                       + int (latency e (nreq w + 1)) + 2000) d (formatDateStamp (tz e) d),
            Sleep 4000,
            Request (now w + int (latency e (nreq w)) + 1000
                       + int (latency e (nreq w + 1)) + 2000
                       + int (latency e (nreq w + 2)) + 4000) d (formatDateStamp (tz e) d)]
           @ new_events (exhausted e w d)
               (snd (runQuery e (exhausted e w d) (d - 6 * msPerHour) 0))"
      by (rule dd[THEN conjunct2, THEN conjunct1])
    show "requests_for d (new_events w (snd (runQuery e w d 0))) = 4"
      by (rule dd[THEN conjunct2, THEN conjunct2])
  qed (rule exhausted_fields)+
  have p: "\<forall>i < length (new_events w (snd (runQuery e w d 0))).
         fetch_pattern d i (new_events w (snd (runQuery e w d 0)) ! i)"
    using runQuery_pattern[of 0 _ w e d] by simp
  have q: "\<forall>t. \<forall>i < length (new_events w (snd (getGribData e w t))).
         fetch_pattern (min t (getLatestAvailableTimestamp (tz e) (now w))) i
           (new_events w (snd (getGribData e w t)) ! i)"
  proof (intro allI impI)
    fix t i
    let ?d = "min t (getLatestAvailableTimestamp (tz e) (now w))"
    have eq: "getGribData e w t = runQuery e w ?d 0"
      by (simp add: getGribData_def Let_def min_def)
    assume "i < length (new_events w (snd (getGribData e w t)))"
    then have "i < length (new_events w (snd (runQuery e w ?d 0)))"
      by (simp only: eq)
    from runQuery_pattern[of 0 i w e ?d, OF _ this]
    show "fetch_pattern ?d i (new_events w (snd (getGribData e w t)) ! i)"
      by (simp add: eq)
  qed
  from a' p b g q c e show ?thesis by (intro conjI)
qed

theorem runQuery_three_retries_then_step_back_witness:
  "runQuery provider_down (empty_cache 1709296200000) 1709272800000 0 =
     runQuery provider_down (exhausted provider_down (empty_cache 1709296200000) 1709272800000)
       1709251200000 0
   \<and> new_events (empty_cache 1709296200000)
        (snd (runQuery provider_down (empty_cache 1709296200000) 1709272800000 0)) =
        [Request 1709296200000 1709272800000 ''2024030106'', Sleep 1000,
         Request 1709296201000 1709272800000 ''2024030106'', Sleep 2000,
         Request 1709296203000 1709272800000 ''2024030106'', Sleep 4000,
         Request 1709296207000 1709272800000 ''2024030106'']
        @ new_events (exhausted provider_down (empty_cache 1709296200000) 1709272800000)
            (snd (runQuery provider_down
                    (exhausted provider_down (empty_cache 1709296200000) 1709272800000)
                    1709251200000 0))
   \<and> requests_for 1709272800000
        (new_events (empty_cache 1709296200000)
          (snd (runQuery provider_down (empty_cache 1709296200000) 1709272800000 0))) = 4
   \<and> now (exhausted provider_down (empty_cache 1709296200000) 1709272800000) = 1709296207000
   \<and> nreq (exhausted provider_down (empty_cache 1709296200000) 1709272800000) = 4"
proof -
  define w0 where "w0 = empty_cache 1709296200000"
  have w0: "now w0 = 1709296200000" "nreq w0 = 0"
    by (simp_all add: w0_def empty_cache_def)
  have pd: "tz provider_down = 0" "latency provider_down n = 0"
    "http provider_down n r = Status 404" for n r
    by (simp_all add: provider_down_def)
  have fmt: "formatDateStamp 0 1709272800000 = ''2024030106''" by code_simp
  have hyp: "(\<forall>i<4. http provider_down (nreq w0 + i)
          (mk_request (tz provider_down) 1709272800000) \<noteq> Status 200)
     \<and> now w0 + int (latency provider_down (nreq w0))
      + int (latency provider_down (nreq w0 + 1))
      + int (latency provider_down (nreq w0 + 2)) + 7000
      - 1709272800000 \<le> 10 * msPerDay"
    by (simp add: pd w0 msPerDay_def)
  note T = runQuery_three_retries_then_step_back[of w0 provider_down 1709272800000]
  note C = T[THEN conjunct2, THEN conjunct2, THEN conjunct2, THEN conjunct2, THEN conjunct2,
      THEN conjunct2, THEN mp, OF hyp]
  have d': "(1709272800000::int) - 6 * msPerHour = 1709251200000"
    by (simp add: msPerHour_def)
  from C[THEN conjunct1]
  have c1: "runQuery provider_down w0 1709272800000 0 =
     runQuery provider_down (exhausted provider_down w0 1709272800000) 1709251200000 0"
    by (simp only: d')
  from C[THEN conjunct2, THEN conjunct1]
  have c2: "new_events w0 (snd (runQuery provider_down w0 1709272800000 0)) =
        [Request 1709296200000 1709272800000 ''2024030106'', Sleep 1000,
         Request 1709296201000 1709272800000 ''2024030106'', Sleep 2000,
         Request 1709296203000 1709272800000 ''2024030106'', Sleep 4000,
         Request 1709296207000 1709272800000 ''2024030106'']
        @ new_events (exhausted provider_down w0 1709272800000)
            (snd (runQuery provider_down (exhausted provider_down w0 1709272800000)
                    1709251200000 0))"
    by (simp only: d' pd w0 fmt) simp
  from C[THEN conjunct2, THEN conjunct2, THEN conjunct1]
  have c3: "requests_for 1709272800000
        (new_events w0 (snd (runQuery provider_down w0 1709272800000 0))) = 4" .
  from C[THEN conjunct2, THEN conjunct2, THEN conjunct2, THEN conjunct1]
  have c4: "now (exhausted provider_down w0 1709272800000) = 1709296207000"
    by (simp add: pd w0)
  from C[THEN conjunct2, THEN conjunct2, THEN conjunct2, THEN conjunct2, THEN conjunct1]
  have c5: "nreq (exhausted provider_down w0 1709272800000) = 4"
    by (simp add: w0)
  from c1 c2 c3 c4 c5 show ?thesis unfolding w0_def by (intro conjI)
qed

text \<open>
  C2, as amended. A \<^verbatim>\<open>runQuery\<close> on a date more than 10 days before the current time
  returns the unavailable response and leaves the world as it is (no request); every
  request of \<^verbatim>\<open>runQuery\<close> and of \<^verbatim>\<open>getGribData\<close> is issued at most 10 days after the
  date it is for. The bound is on the date passed in, not on the grid time of its key.
\<close>

theorem runQuery_lookback_bound:
  "(now w - d > 10 * msPerDay \<longrightarrow> runQuery e w d r = (Inr unavailable, w))
   \<and> list_all within_lookback (new_events w (snd (runQuery e w d r)))
   \<and> list_all within_lookback (new_events w (snd (getGribData e w t)))"
proof -
  have "now w - d > 10 * msPerDay \<longrightarrow> runQuery e w d r = (Inr unavailable, w)"
    by (subst runQuery.simps) simp
  then show ?thesis
    by (simp add: runQuery_within_lookback getGribData_def Let_def)
qed

theorem runQuery_lookback_bound_witness:
  "runQuery provider_up (empty_cache 1710133200001) 1709269200000 0 =
     (Inr unavailable, empty_cache 1710133200001)"
  using runQuery_lookback_bound[of "empty_cache 1710133200001" 1709269200000 provider_up 0]
  by (simp add: empty_cache_def msPerDay_def)

text \<open>
  C2, as stated, fails for a date off the grid: at 2024-03-11T05:00Z a fetch for
  2024-03-01T05:00Z (exactly 10 days earlier) issues a request for the key 2024030100,
  whose grid time 2024-03-01T00:00Z is 10 days and 5 hours before the current time.
\<close>

theorem request_for_key_older_than_lookback:
  "new_events (empty_cache 1710133200000)
     (snd (getGribData provider_up (empty_cache 1710133200000) 1709269200000)) =
     [Request 1710133200000 1709269200000 ''2024030100'']
   \<and> parse_stamp ''2024030100'' = Some 1709251200000
   \<and> truncate_utc 1709269200000 6 = 1709251200000
   \<and> 10 * msPerDay < 1710133200000 - 1709251200000"
  by code_simp

section \<open>CacheStore: cleanupFiles\<close>

text \<open>
  \<^verbatim>\<open>fs.unlinkSync\<close> on a file of either directory. \<^verbatim>\<open>readdirSync\<close> lists every name once,
  so a listed file is there when it is unlinked.
\<close>

definition unlink_json :: "string \<Rightarrow> world \<Rightarrow> world" where
  "unlink_json f w =
     w\<lparr>json_data := map_option (filter (\<lambda>(g, _). g \<noteq> f)) (json_data w),
       events := events w @ [Unlink (''json-data/'' @ f)]\<rparr>"

definition unlink_grib :: "string \<Rightarrow> world \<Rightarrow> world" where
  "unlink_grib f w =
     w\<lparr>grib_data := map_option (filter (\<lambda>g. g \<noteq> f)) (grib_data w),
       events := events w @ [Unlink (''grib-data/'' @ f)]\<rparr>"

text \<open>
  \<^verbatim>\<open>cleanupFiles()\<close>: both directories are listed first (a missing directory throws), then
  every listed \<^verbatim>\<open>.json\<close> file whose \<^verbatim>\<open>.f000\<close> counterpart is not listed is unlinked, then
  every listed \<^verbatim>\<open>.f000\<close> file whose \<^verbatim>\<open>.json\<close> counterpart was not listed.
\<close>

definition cleanupFiles :: "world \<Rightarrow> error + world" where
  "cleanupFiles w =
     (case json_data w of
        None \<Rightarrow> Inl (ENOENT ''json-data'')
      | Some js \<Rightarrow>
          (case grib_data w of
             None \<Rightarrow> Inl (ENOENT ''grib-data'')
           | Some gs \<Rightarrow>
               (let jsonFiles = filter (\<lambda>f. endsWith f ''.json'') (map fst js);
                    gribFiles = filter (\<lambda>f. endsWith f ''.f000'') gs;
                    w1 = fold (\<lambda>jsonFile w.
                           let stamp = replace_first ''.json'' jsonFile;
                               gribFile = stamp @ ''.f000''
                           in if gribFile \<notin> set gribFiles then unlink_json jsonFile w else w)
                         jsonFiles w;
                    w2 = fold (\<lambda>gribFile w.
                           let stamp = replace_first ''.f000'' gribFile;
                               jsonFile = stamp @ ''.json''
                           in if jsonFile \<notin> set jsonFiles then unlink_grib gribFile w else w)
                         gribFiles w1
                in Inr w2)))"

text \<open>
  An artifact is a file \<^verbatim>\<open><key>.json\<close> or \<^verbatim>\<open><key>.f000\<close>; a key (a stamp of digits) has no
  dot. A directory is keyed when every file with the extension has such a stem.
\<close>

definition key_file :: "string \<Rightarrow> string \<Rightarrow> bool" where
  "key_file ext f = (endsWith f ext \<longrightarrow> CHR ''.'' \<notin> set (take (length f - length ext) f))"

definition keyed :: "world \<Rightarrow> bool" where
  "keyed w = (list_all (key_file ''.json'') (json_files w)
              \<and> list_all (key_file ''.f000'') (grib_files w))"

subsection \<open>Properties of cleanupFiles\<close>

lemma replace_first_stem:
  "CHR ''.'' \<notin> set K \<Longrightarrow> ext \<noteq> [] \<Longrightarrow> hd ext = CHR ''.'' \<Longrightarrow> replace_first ext (K @ ext) = K"
proof (induction K)
  case Nil
  then show ?case by (cases ext) auto
next
  case (Cons c cs)
  then have "\<not> prefix ext (c # cs @ ext)" by (cases ext) auto
  with Cons show ?case by simp
qed

lemma key_file_stem:
  assumes "key_file ext f" "endsWith f ext"
  obtains K where "f = K @ ext" "CHR ''.'' \<notin> set K"
proof -
  from assms(2) obtain K where K: "f = K @ ext" by (auto simp: endsWith_def suffix_def)
  with assms have "CHR ''.'' \<notin> set K" by (simp add: key_file_def)
  with K show ?thesis using that by blast
qed

lemma unlink_json_fields [simp]:
  "json_data (unlink_json f w) = map_option (filter (\<lambda>(g, _). g \<noteq> f)) (json_data w)"
  "grib_data (unlink_json f w) = grib_data w"
  "events (unlink_json f w) = events w @ [Unlink (''json-data/'' @ f)]"
  "now (unlink_json f w) = now w" "nreq (unlink_json f w) = nreq w"
  "nexec (unlink_json f w) = nexec w"
  by (simp_all add: unlink_json_def)

lemma unlink_grib_fields [simp]:
  "grib_data (unlink_grib f w) = map_option (filter (\<lambda>g. g \<noteq> f)) (grib_data w)"
  "json_data (unlink_grib f w) = json_data w"
  "events (unlink_grib f w) = events w @ [Unlink (''grib-data/'' @ f)]"
  "now (unlink_grib f w) = now w" "nreq (unlink_grib f w) = nreq w"
  "nexec (unlink_grib f w) = nexec w"
  by (simp_all add: unlink_grib_def)

lemma fold_unlink_json:
  "json_data (fold (\<lambda>f w. if P f then unlink_json f w else w) fs w) =
     map_option (filter (\<lambda>(g, _). \<not> (g \<in> set fs \<and> P g))) (json_data w)"
  "grib_data (fold (\<lambda>f w. if P f then unlink_json f w else w) fs w) = grib_data w"
  "events (fold (\<lambda>f w. if P f then unlink_json f w else w) fs w) =
     events w @ map (\<lambda>f. Unlink (''json-data/'' @ f)) (filter P fs)"
  "now (fold (\<lambda>f w. if P f then unlink_json f w else w) fs w) = now w"
  "nreq (fold (\<lambda>f w. if P f then unlink_json f w else w) fs w) = nreq w"
  "nexec (fold (\<lambda>f w. if P f then unlink_json f w else w) fs w) = nexec w"
proof (induction fs arbitrary: w)
  case Nil
  {
    case 1 show ?case by (cases "json_data w") simp_all
  next
    case 2 show ?case by simp
  next
    case 3 show ?case by simp
  next
    case 4 show ?case by simp
  next
    case 5 show ?case by simp
  next
    case 6 show ?case by simp
  }
next
  case (Cons f fs)
  {
    case 1 show ?case
      by (cases "json_data w") (auto simp: Cons intro!: filter_cong)
  next
    case 2 show ?case by (simp add: Cons)
  next
    case 3 show ?case by (simp add: Cons)
  next
    case 4 show ?case by (simp add: Cons)
  next
    case 5 show ?case by (simp add: Cons)
  next
    case 6 show ?case by (simp add: Cons)
  }
qed

lemma fold_unlink_grib:
  "grib_data (fold (\<lambda>f w. if P f then unlink_grib f w else w) fs w) =
     map_option (filter (\<lambda>g. \<not> (g \<in> set fs \<and> P g))) (grib_data w)"
  "json_data (fold (\<lambda>f w. if P f then unlink_grib f w else w) fs w) = json_data w"
  "events (fold (\<lambda>f w. if P f then unlink_grib f w else w) fs w) =
     events w @ map (\<lambda>f. Unlink (''grib-data/'' @ f)) (filter P fs)"
  "now (fold (\<lambda>f w. if P f then unlink_grib f w else w) fs w) = now w"
  "nreq (fold (\<lambda>f w. if P f then unlink_grib f w else w) fs w) = nreq w"
  "nexec (fold (\<lambda>f w. if P f then unlink_grib f w else w) fs w) = nexec w"
proof (induction fs arbitrary: w)
  case Nil
  {
    case 1 show ?case by (cases "grib_data w") simp_all
  next
    case 2 show ?case by simp
  next
    case 3 show ?case by simp
  next
    case 4 show ?case by simp
  next
    case 5 show ?case by simp
  next
    case 6 show ?case by simp
  }
next
  case (Cons f fs)
  {
    case 1 show ?case
      by (cases "grib_data w") (auto simp: Cons intro!: filter_cong)
  next
    case 2 show ?case by (simp add: Cons)
  next
    case 3 show ?case by (simp add: Cons)
  next
    case 4 show ?case by (simp add: Cons)
  next
    case 5 show ?case by (simp add: Cons)
  next
    case 6 show ?case by (simp add: Cons)
  }
qed

lemma cleanupFiles_fields:
  assumes "cleanupFiles w = Inr w'"
  obtains js gs where
    "json_data w = Some js" "grib_data w = Some gs"
    "json_data w' = Some (filter (\<lambda>(g, _). \<not> (g \<in> set (map fst js) \<and> endsWith g ''.json''
         \<and> replace_first ''.json'' g @ ''.f000'' \<notin> set (filter (\<lambda>f. endsWith f ''.f000'') gs))) js)"
    "grib_data w' = Some (filter (\<lambda>g. \<not> (g \<in> set gs \<and> endsWith g ''.f000''
         \<and> replace_first ''.f000'' g @ ''.json''
              \<notin> set (filter (\<lambda>f. endsWith f ''.json'') (map fst js)))) gs)"
    "events w' = events w
       @ map (\<lambda>f. Unlink (''json-data/'' @ f))
           (filter (\<lambda>g. replace_first ''.json'' g @ ''.f000''
                      \<notin> set (filter (\<lambda>f. endsWith f ''.f000'') gs))
              (filter (\<lambda>f. endsWith f ''.json'') (map fst js)))
       @ map (\<lambda>f. Unlink (''grib-data/'' @ f))
           (filter (\<lambda>g. replace_first ''.f000'' g @ ''.json''
                      \<notin> set (filter (\<lambda>f. endsWith f ''.json'') (map fst js)))
              (filter (\<lambda>f. endsWith f ''.f000'') gs))"
    "now w' = now w" "nreq w' = nreq w" "nexec w' = nexec w"
proof -
  from assms obtain js where js: "json_data w = Some js"
    by (auto simp: cleanupFiles_def split: option.splits)
  from assms js obtain gs where gs: "grib_data w = Some gs"
    by (auto simp: cleanupFiles_def split: option.splits)
  from assms js gs have w': "w' =
    fold (\<lambda>gribFile w. if replace_first ''.f000'' gribFile @ ''.json''
                \<notin> set (filter (\<lambda>f. endsWith f ''.json'') (map fst js))
              then unlink_grib gribFile w else w)
      (filter (\<lambda>f. endsWith f ''.f000'') gs)
      (fold (\<lambda>jsonFile w. if replace_first ''.json'' jsonFile @ ''.f000''
                \<notin> set (filter (\<lambda>f. endsWith f ''.f000'') gs)
              then unlink_json jsonFile w else w)
        (filter (\<lambda>f. endsWith f ''.json'') (map fst js)) w)"
    by (simp add: cleanupFiles_def Let_def)
  show ?thesis
    apply (rule that[OF js gs])
    subgoal by (auto simp: w' fold_unlink_grib fold_unlink_json js intro!: filter_cong)
    subgoal by (auto simp: w' fold_unlink_grib fold_unlink_json gs intro!: filter_cong)
    subgoal by (simp add: w' fold_unlink_grib fold_unlink_json)
    subgoal by (simp add: w' fold_unlink_grib fold_unlink_json)
    subgoal by (simp add: w' fold_unlink_grib fold_unlink_json)
    subgoal by (simp add: w' fold_unlink_grib fold_unlink_json)
    done
qed

lemma stem_json [simp]: "CHR ''.'' \<notin> set K \<Longrightarrow> replace_first ''.json'' (K @ ''.json'') = K"
  by (rule replace_first_stem) simp_all

lemma stem_f000 [simp]: "CHR ''.'' \<notin> set K \<Longrightarrow> replace_first ''.f000'' (K @ ''.f000'') = K"
  by (rule replace_first_stem) simp_all

lemma endsWith_append [simp]: "endsWith (K @ ext) ext"
  by (simp add: endsWith_def suffix_def)

lemma cleanupFiles_keeps_pairs:
  assumes "cleanupFiles w = Inr w'" and "CHR ''.'' \<notin> set K"
  shows "existsSync w' (JsonFile (K @ ''.json'')) =
           (existsSync w (JsonFile (K @ ''.json'')) \<and> existsSync w (GribFile (K @ ''.f000'')))"
    and "existsSync w' (GribFile (K @ ''.f000'')) =
           (existsSync w (JsonFile (K @ ''.json'')) \<and> existsSync w (GribFile (K @ ''.f000'')))"
proof -
  from assms(1) obtain js gs where f:
    "json_data w = Some js" "grib_data w = Some gs"
    "json_data w' = Some (filter (\<lambda>(g, _). \<not> (g \<in> set (map fst js) \<and> endsWith g ''.json''
         \<and> replace_first ''.json'' g @ ''.f000'' \<notin> set (filter (\<lambda>f. endsWith f ''.f000'') gs))) js)"
    "grib_data w' = Some (filter (\<lambda>g. \<not> (g \<in> set gs \<and> endsWith g ''.f000''
         \<and> replace_first ''.f000'' g @ ''.json''
              \<notin> set (filter (\<lambda>f. endsWith f ''.json'') (map fst js)))) gs)"
    by (rule cleanupFiles_fields)
  show "existsSync w' (JsonFile (K @ ''.json'')) =
           (existsSync w (JsonFile (K @ ''.json'')) \<and> existsSync w (GribFile (K @ ''.f000'')))"
    using assms(2) by (force simp: existsSync_def json_files_def grib_files_def f)
  show "existsSync w' (GribFile (K @ ''.f000'')) =
           (existsSync w (JsonFile (K @ ''.json'')) \<and> existsSync w (GribFile (K @ ''.f000'')))"
    using assms(2) by (force simp: existsSync_def json_files_def grib_files_def f)
qed

lemma cleanupFiles_total:
  "json_data w = Some js \<Longrightarrow> grib_data w = Some gs \<Longrightarrow> \<exists>w''. cleanupFiles w = Inr w''"
  by (simp add: cleanupFiles_def Let_def)

lemma cleanupFiles_keyed:
  assumes "cleanupFiles w = Inr w'" and "keyed w"
  shows "keyed w'"
proof -
  from assms(1) obtain js gs where f:
    "json_data w = Some js" "grib_data w = Some gs"
    "json_data w' = Some (filter (\<lambda>(g, _). \<not> (g \<in> set (map fst js) \<and> endsWith g ''.json''
         \<and> replace_first ''.json'' g @ ''.f000'' \<notin> set (filter (\<lambda>f. endsWith f ''.f000'') gs))) js)"
    "grib_data w' = Some (filter (\<lambda>g. \<not> (g \<in> set gs \<and> endsWith g ''.f000''
         \<and> replace_first ''.f000'' g @ ''.json''
              \<notin> set (filter (\<lambda>f. endsWith f ''.json'') (map fst js)))) gs)"
    by (rule cleanupFiles_fields)
  from assms(2) show ?thesis
    by (auto simp: keyed_def json_files_def grib_files_def f list_all_iff)
qed

lemma cleanupFiles_noop:
  assumes run: "cleanupFiles w = Inr w''" and keyed: "keyed w"
    and paired: "\<And>K. CHR ''.'' \<notin> set K \<Longrightarrow>
       existsSync w (JsonFile (K @ ''.json'')) = existsSync w (GribFile (K @ ''.f000''))"
  shows "w'' = w"
proof -
  from run obtain js gs where f:
    "json_data w = Some js" "grib_data w = Some gs"
    "json_data w'' = Some (filter (\<lambda>(g, _). \<not> (g \<in> set (map fst js) \<and> endsWith g ''.json''
         \<and> replace_first ''.json'' g @ ''.f000'' \<notin> set (filter (\<lambda>f. endsWith f ''.f000'') gs))) js)"
    "grib_data w'' = Some (filter (\<lambda>g. \<not> (g \<in> set gs \<and> endsWith g ''.f000''
         \<and> replace_first ''.f000'' g @ ''.json''
              \<notin> set (filter (\<lambda>f. endsWith f ''.json'') (map fst js)))) gs)"
    "events w'' = events w
       @ map (\<lambda>f. Unlink (''json-data/'' @ f))
           (filter (\<lambda>g. replace_first ''.json'' g @ ''.f000''
                      \<notin> set (filter (\<lambda>f. endsWith f ''.f000'') gs))
              (filter (\<lambda>f. endsWith f ''.json'') (map fst js)))
       @ map (\<lambda>f. Unlink (''grib-data/'' @ f))
           (filter (\<lambda>g. replace_first ''.f000'' g @ ''.json''
                      \<notin> set (filter (\<lambda>f. endsWith f ''.json'') (map fst js)))
              (filter (\<lambda>f. endsWith f ''.f000'') gs))"
    "now w'' = now w" "nreq w'' = nreq w" "nexec w'' = nexec w"
    by (rule cleanupFiles_fields)
  have j: "replace_first ''.json'' g @ ''.f000'' \<in> set (filter (\<lambda>f. endsWith f ''.f000'') gs)"
    if "g \<in> set (map fst js)" "endsWith g ''.json''" for g
  proof -
    from keyed that(1) have "key_file ''.json'' g"
      by (auto simp: keyed_def json_files_def f list_all_iff)
    from key_file_stem[OF this that(2)]
    obtain K where K: "g = K @ ''.json''" "CHR ''.'' \<notin> set K" by blast
    from paired[OF K(2)] that(1) K(1) have "K @ ''.f000'' \<in> set gs"
      by (simp add: existsSync_def json_files_def grib_files_def f)
    with K show ?thesis by simp
  qed
  have g: "replace_first ''.f000'' g @ ''.json'' \<in> set (filter (\<lambda>f. endsWith f ''.json'') (map fst js))"
    if "g \<in> set gs" "endsWith g ''.f000''" for g
  proof -
    from keyed that(1) have "key_file ''.f000'' g"
      by (auto simp: keyed_def grib_files_def f list_all_iff)
    from key_file_stem[OF this that(2)]
    obtain K where K: "g = K @ ''.f000''" "CHR ''.'' \<notin> set K" by blast
    from paired[OF K(2)] that(1) K(1) have "K @ ''.json'' \<in> set (map fst js)"
      by (simp add: existsSync_def json_files_def grib_files_def f)
    with K show ?thesis by simp
  qed
  have 1: "json_data w'' = json_data w"
    unfolding f by (simp add: filter_id_conv) (use j in force)
  have 2: "grib_data w'' = grib_data w"
    unfolding f by (simp add: filter_id_conv) (use g in force)
  have 3: "events w'' = events w"
    unfolding f by (simp add: filter_empty_conv) (use j g in force)
  show ?thesis
    by (rule world.equality) (simp_all add: 1 2 3 f)
qed

text \<open>
  C5. After a run of \<^verbatim>\<open>cleanupFiles\<close> the structured artifact of a key is there exactly when
  it and its raw counterpart were there before, and likewise the raw artifact: an artifact
  without its counterpart is removed, and every artifact that is kept has its pair. A
  second run returns the world of the first unchanged: no file is unlinked and nothing is
  added to the trace.
\<close>

theorem cleanupFiles_pairs_idempotent:
  assumes run: "cleanupFiles w = Inr w'" and keyed: "keyed w"
  shows "(\<forall>K. CHR ''.'' \<notin> set K \<longrightarrow>
            (existsSync w' (JsonFile (K @ ''.json'')) =
               (existsSync w (JsonFile (K @ ''.json'')) \<and> existsSync w (GribFile (K @ ''.f000''))))
          \<and> (existsSync w' (GribFile (K @ ''.f000'')) =
               (existsSync w (JsonFile (K @ ''.json'')) \<and> existsSync w (GribFile (K @ ''.f000''))))
          \<and> existsSync w' (JsonFile (K @ ''.json'')) = existsSync w' (GribFile (K @ ''.f000'')))
         \<and> keyed w' \<and> cleanupFiles w' = Inr w'"
proof -
  note pairs = cleanupFiles_keeps_pairs[OF run]
  have k': "keyed w'" by (rule cleanupFiles_keyed[OF run keyed])
  from run obtain js' gs' where "json_data w' = Some js'" "grib_data w' = Some gs'"
    by (rule cleanupFiles_fields) simp
  then obtain w'' where w'': "cleanupFiles w' = Inr w''"
    using cleanupFiles_total by blast
  have "w'' = w'"
    by (rule cleanupFiles_noop[OF w'' k']) (simp add: pairs)
  with w'' k' pairs show ?thesis by simp
qed

definition orphans :: world where
  "orphans =
     \<lparr>now = 0,
      json_data = Some [(''2024030100.json'', 5), (''2024030106.json'', 6)],
      grib_data = Some [''2024030106.f000'', ''2024030112.f000''],
      nreq = 0, nexec = 0, events = []\<rparr>"

definition reconciled :: world where
  "reconciled =
     \<lparr>now = 0,
      json_data = Some [(''2024030106.json'', 6)],
      grib_data = Some [''2024030106.f000''],
      nreq = 0, nexec = 0,
      events = [Unlink ''json-data/2024030100.json'', Unlink ''grib-data/2024030112.f000'']\<rparr>"

theorem cleanupFiles_pairs_idempotent_witness:
  "cleanupFiles orphans = Inr reconciled \<and> cleanupFiles reconciled = Inr reconciled"
proof -
  have r: "cleanupFiles orphans = Inr reconciled" by code_simp
  have k: "keyed orphans" by code_simp
  from cleanupFiles_pairs_idempotent[OF r k] r show ?thesis by simp
qed

section \<open>ConversionInvoker: convertGribToJson\<close>

text \<open>
  \<^verbatim>\<open>response.stamp && response.downloaded\<close>: the stamp and the date of a response that
  reports a download.
\<close>

definition downloaded_stamp :: "GribDataResponse \<Rightarrow> (string \<times> int) option" where
  "downloaded_stamp response =
     (case (stamp response, targetDate response) of
        (Some s, Some d) \<Rightarrow> if s \<noteq> [] \<and> downloaded response then Some (s, d) else None
      | _ \<Rightarrow> None)"

lemma downloaded_stamp_unavailable [simp]: "downloaded_stamp unavailable = None"
  by (simp add: downloaded_stamp_def unavailable_def)

lemma existsSync_write_grib [simp]:
  "existsSync (write_grib f w) (GribFile g) = (g = f \<or> existsSync w (GribFile g))"
  by (simp add: existsSync_def)

lemma existsSync_https_get [simp]: "existsSync (https_get e w d) p = existsSync w p"
  by (simp add: existsSync_def json_files_def grib_files_def split: path.splits)

lemma existsSync_setTimeout [simp]: "existsSync (setTimeout k w) p = existsSync w p"
  by (simp add: existsSync_def json_files_def grib_files_def split: path.splits)

lemma getGribData_runQuery:
  "\<exists>d. d \<le> t \<and> getGribData e w t = runQuery e w d 0"
  by (auto simp: getGribData_def Let_def intro: exI[of _ t]
      exI[of _ "getLatestAvailableTimestamp (tz e) (now w)"])

lemma backoff_le_diff: "(a::int) + int l + 2 ^ r * 1000 - b \<le> x \<Longrightarrow> a - b \<le> x"
proof -
  assume h: "a + int l + 2 ^ r * 1000 - b \<le> x"
  have "(0::int) \<le> 2 ^ r" by simp
  with h show ?thesis by linarith
qed

lemma on_status_200_downloaded:
  assumes "fst (on_status_200 e w1 n d) = Inr rsp" "downloaded_stamp rsp = Some (s, d')"
  shows "d' = d \<and> s = formatDateStamp (tz e) d
     \<and> existsSync (snd (on_status_200 e w1 n d)) (GribFile (s @ ''.f000''))
     \<and> \<not> existsSync w1 (JsonFile (s @ ''.json''))"
  using assms
  by (auto simp: on_status_200_def Let_def downloaded_stamp_def split: if_splits)

lemma runQuery_downloaded_aux:
  "fst (runQuery e w d r) = Inr rsp \<longrightarrow> downloaded_stamp rsp = Some (s, d') \<longrightarrow>
     d' \<le> d \<and> now w - d' \<le> 10 * msPerDay \<and> s = formatDateStamp (tz e) d'
     \<and> existsSync (snd (runQuery e w d r)) (GribFile (s @ ''.f000''))
     \<and> \<not> existsSync w (JsonFile (s @ ''.json''))"
proof (rule runQuery_result_induct[where P = "\<lambda>e w d r res.
    fst res = Inr rsp \<longrightarrow> downloaded_stamp rsp = Some (s, d') \<longrightarrow>
     d' \<le> d \<and> now w - d' \<le> 10 * msPerDay \<and> s = formatDateStamp (tz e) d'
     \<and> existsSync (snd res) (GribFile (s @ ''.f000''))
     \<and> \<not> existsSync w (JsonFile (s @ ''.json''))"], goal_cases)
  case (1 e w d r)
  then show ?case by auto
next
  case (2 e w d r)
  then show ?case
    by (auto dest!: on_status_200_downloaded)
next
  case (3 e w d r)
  then show ?case
    by (auto dest: backoff_le_diff)
next
  case (4 e w d r)
  then show ?case
    by (auto simp: subHours_def msPerHour_def)
qed

lemma getGribData_downloaded:
  assumes "getGribData e w t = (Inr rsp, w')" "downloaded_stamp rsp = Some (s, d')"
  shows "d' \<le> t" "now w - d' \<le> 10 * msPerDay" "s = formatDateStamp (tz e) d'"
    "existsSync w' (GribFile (s @ ''.f000''))" "\<not> existsSync w (JsonFile (s @ ''.json''))"
proof -
  obtain d where d: "d \<le> t" "getGribData e w t = runQuery e w d 0"
    using getGribData_runQuery by blast
  with assms(1) have "fst (runQuery e w d 0) = Inr rsp" "snd (runQuery e w d 0) = w'"
    by simp_all
  with runQuery_downloaded_aux[of e w d 0 rsp s d'] assms(2) d(1)
  show "d' \<le> t" "now w - d' \<le> 10 * msPerDay" "s = formatDateStamp (tz e) d'"
    "existsSync w' (GribFile (s @ ''.f000''))" "\<not> existsSync w (JsonFile (s @ ''.json''))"
    by auto
qed

lemma getGribData_frame:
  assumes "getGribData e w t = (res, w')"
  shows "json_data w' = json_data w" "now w \<le> now w'" "nexec w' = nexec w"
proof -
  obtain d where d: "getGribData e w t = runQuery e w d 0"
    using getGribData_runQuery by blast
  with assms have "snd (runQuery e w d 0) = w'" by simp
  with runQuery_frame[of e w d 0]
  show "json_data w' = json_data w" "now w \<le> now w'" "nexec w' = nexec w" by simp_all
qed

text \<open>
  The converter is run on \<^verbatim>\<open>grib-data/<stamp>.f000\<close>; a run that succeeds leaves
  \<^verbatim>\<open>json-data/<stamp>.json\<close>, written at the current time, and a run that fails writes
  nothing. \<open>swallow\<close> is an error that is logged and dropped.
\<close>

definition write_json :: "string \<Rightarrow> world \<Rightarrow> world" where
  "write_json f w =
     w\<lparr>json_data := Some (filter (\<lambda>(g, _). g \<noteq> f)
                           (case json_data w of None \<Rightarrow> [] | Some js \<Rightarrow> js) @ [(f, now w)])\<rparr>"

definition exec_grib2json :: "env \<Rightarrow> string \<Rightarrow> world \<Rightarrow> bool \<times> world" where
  "exec_grib2json e stamp' w =
     (let ok = grib2json e (nexec w) stamp';
          w1 = w\<lparr>nexec := nexec w + 1, events := events w @ [Exec stamp' ok]\<rparr>
      in if ok then (True, write_json (stamp' @ ''.json'') w1) else (False, w1))"

definition swallow :: "string \<Rightarrow> world \<Rightarrow> world" where
  "swallow what w = w\<lparr>events := events w @ [Swallowed what]\<rparr>"

lemma checkPath_JsonDir_frame [simp]:
  "grib_data (snd (checkPath w JsonDir m)) = grib_data w"
  "existsSync (snd (checkPath w JsonDir m)) (GribFile f) = existsSync w (GribFile f)"
  by (simp_all add: checkPath_def existsSync_def grib_files_def)

lemma exec_grib2json_frame:
  "now (snd (exec_grib2json e s w)) = now w"
  "grib_data (snd (exec_grib2json e s w)) = grib_data w"
  by (simp_all add: exec_grib2json_def Let_def write_json_def)

text \<open>
  \<^verbatim>\<open>convertGribToJson(stamp, targetDate)\<close>. A missing input file is downloaded again and
  the conversion restarts on what was downloaded. After a successful run of the converter
  the input file is unlinked, and the key 6 hours earlier is harvested when it is not
  cached: its download and conversion run inside \<^verbatim>\<open>try\<close>, so their errors are dropped.
\<close>

function convertGribToJson :: "env \<Rightarrow> world \<Rightarrow> string \<Rightarrow> int \<Rightarrow> (error + unit) \<times> world" where
  "convertGribToJson e w stamp' targetDate' =
     (let w0 = snd (checkPath w JsonDir True);
          inputFile = stamp' @ ''.f000''
      in if \<not> existsSync w0 (GribFile inputFile) then
           (case getGribData e w0 targetDate' of
              (Inl err, w1) \<Rightarrow> (Inl err, w1)
            | (Inr response, w1) \<Rightarrow>
                (case downloaded_stamp response of
                   Some (s, d) \<Rightarrow> convertGribToJson e w1 s d
                 | None \<Rightarrow> (Inl (DownloadFailed stamp'), w1)))
         else
           (case exec_grib2json e stamp' w0 of
              (False, w1) \<Rightarrow> (Inl (ConversionError stamp'), w1)
            | (True, w1) \<Rightarrow>
                (let w2 = unlink_grib inputFile w1;
                     prevDate = subHours targetDate' 6;
                     prevStamp = formatDateStamp (tz e) prevDate
                 in if \<not> fst (checkPath w2 (JsonFile (prevStamp @ ''.json'')) False) then
                      (case getGribData e w2 prevDate of
                         (Inl err, w3) \<Rightarrow> (Inr (), swallow prevStamp w3)
                       | (Inr response, w3) \<Rightarrow>
                           (case downloaded_stamp response of
                              Some (s, d) \<Rightarrow>
                                (case convertGribToJson e w3 s d of
                                   (Inl err, w4) \<Rightarrow> (Inr (), swallow prevStamp w4)
                                 | (Inr u, w4) \<Rightarrow> (Inr (), w4))
                            | None \<Rightarrow> (Inr (), w3)))
                    else (Inr (), w2))))"
  by pat_completeness auto
termination
proof (relation "measures [\<lambda>(e, w, s, d). nat (d + 10 * msPerDay - now w + 1),
                           \<lambda>(e, w, s, d). if existsSync w (GribFile (s @ ''.f000'')) then 0 else 1]",
       goal_cases)
  case 1
  show ?case by simp
next
  case (2 e w stamp' targetDate' w0 inputFile x1 x2 response s_d s d)
  then have g: "getGribData e w0 targetDate' = (Inr response, x2)"
    and ds: "downloaded_stamp response = Some (s, d)"
    and w0: "w0 = snd (checkPath w JsonDir True)"
    and missing: "\<not> existsSync w0 (GribFile inputFile)" "inputFile = stamp' @ ''.f000''"
    by simp_all
  from getGribData_downloaded[OF g ds] getGribData_frame[OF g] w0 missing show ?case
    by auto
next
  case (3 e w stamp' targetDate' w0 inputFile x1 w1 w2 prevDate prevStamp y1 w3 response s_d s d)
  then have g: "getGribData e w2 prevDate = (Inr response, w3)"
    and ds: "downloaded_stamp response = Some (s, d)"
    and w0: "w0 = snd (checkPath w JsonDir True)"
    and w1: "(x1, w1) = exec_grib2json e stamp' w0"
    and w2: "w2 = unlink_grib inputFile w1"
    and pd: "prevDate = subHours targetDate' 6"
    by simp_all
  from w1 have "w1 = snd (exec_grib2json e stamp' w0)" by (metis snd_conv)
  then have n: "now w2 = now w" using w0 w2 by (simp add: exec_grib2json_frame)
  from getGribData_downloaded[OF g ds] getGribData_frame[OF g] n pd show ?case
    by (auto simp: subHours_def msPerHour_def)
qed

declare convertGribToJson.simps [simp del]

subsection \<open>Properties of convertGribToJson\<close>

text \<open>
  A key that has its structured artifact and no raw artifact stays so through every fetch
  and conversion: a download is only written for a key without a structured artifact.
\<close>

definition cached_only :: "string \<Rightarrow> world \<Rightarrow> bool" where
  "cached_only K w =
     (existsSync w (JsonFile (K @ ''.json'')) \<and> \<not> existsSync w (GribFile (K @ ''.f000'')))"

lemma existsSync_checkPath_GribDir [simp]:
  "existsSync (snd (checkPath w GribDir m)) (GribFile f) = existsSync w (GribFile f)"
  "existsSync (snd (checkPath w GribDir m)) (JsonFile f) = existsSync w (JsonFile f)"
  by (simp_all add: existsSync_def)

lemma on_status_200_grib:
  "existsSync (snd (on_status_200 e w1 n d)) (GribFile f) \<Longrightarrow>
     existsSync w1 (GribFile f)
     \<or> (\<exists>s. f = s @ ''.f000'' \<and> \<not> existsSync w1 (JsonFile (s @ ''.json'')))"
  by (auto simp: on_status_200_def Let_def split: if_splits)

lemma existsSync_write_grib_json [simp]:
  "existsSync (write_grib f w) (JsonFile g) = existsSync w (JsonFile g)"
  by (simp add: existsSync_def json_files_def)

lemma on_status_200_json [simp]:
  "existsSync (snd (on_status_200 e w1 n d)) (JsonFile f) = existsSync w1 (JsonFile f)"
  by (auto simp: on_status_200_def Let_def split: if_splits)

lemma runQuery_grib:
  "existsSync (snd (runQuery e w d r)) (GribFile f) \<longrightarrow>
     existsSync w (GribFile f)
     \<or> (\<exists>s. f = s @ ''.f000'' \<and> \<not> existsSync w (JsonFile (s @ ''.json'')))"
proof (rule runQuery_result_induct[where P = "\<lambda>e w d r res.
    existsSync (snd res) (GribFile f) \<longrightarrow>
     existsSync w (GribFile f)
     \<or> (\<exists>s. f = s @ ''.f000'' \<and> \<not> existsSync w (JsonFile (s @ ''.json'')))"], goal_cases)
  case (1 e w d r)
  then show ?case by simp
next
  case (2 e w d r)
  then show ?case using on_status_200_grib[of e "https_get e w d" "nreq w" d f] by auto
next
  case (3 e w d r)
  then show ?case by auto
next
  case (4 e w d r)
  then show ?case by auto
qed

lemma runQuery_json [simp]:
  "existsSync (snd (runQuery e w d r)) (JsonFile f) = existsSync w (JsonFile f)"
  using runQuery_frame[of e w d r] by (simp add: existsSync_def json_files_def)

lemma cached_only_getGribData:
  assumes "cached_only K w" "getGribData e w t = (res, w')"
  shows "cached_only K w'"
proof -
  obtain d where "getGribData e w t = runQuery e w d 0"
    using getGribData_runQuery by blast
  with assms(2) have w': "w' = snd (runQuery e w d 0)" by simp
  show ?thesis
    using assms(1) runQuery_grib[of e w d 0 "K @ ''.f000''"]
    by (auto simp: cached_only_def w')
qed

lemma existsSync_write_json [simp]:
  "existsSync (write_json f w) (JsonFile g) = (g = f \<or> existsSync w (JsonFile g))"
  "existsSync (write_json f w) (GribFile g) = existsSync w (GribFile g)"
  by (auto simp: write_json_def existsSync_def json_files_def grib_files_def
      split: option.splits)

lemma existsSync_counters [simp]:
  "existsSync (w\<lparr>nexec := a, events := b\<rparr>) p = existsSync w p"
  by (simp add: existsSync_def json_files_def grib_files_def split: path.splits)

lemma existsSync_exec [simp]:
  "existsSync (snd (exec_grib2json e s w)) (GribFile g) = existsSync w (GribFile g)"
  "existsSync (snd (exec_grib2json e s w)) (JsonFile g) =
     (grib2json e (nexec w) s \<and> g = s @ ''.json'' \<or> existsSync w (JsonFile g))"
  by (auto simp: exec_grib2json_def Let_def)

lemma existsSync_unlink_grib [simp]:
  "existsSync (unlink_grib f w) (GribFile g) = (g \<noteq> f \<and> existsSync w (GribFile g))"
  "existsSync (unlink_grib f w) (JsonFile g) = existsSync w (JsonFile g)"
  by (auto simp: existsSync_def json_files_def grib_files_def split: option.splits)

lemma existsSync_swallow [simp]: "existsSync (swallow x w) p = existsSync w p"
  by (simp add: swallow_def existsSync_def json_files_def grib_files_def split: path.splits)

lemma existsSync_checkPath_JsonDir [simp]:
  "existsSync (snd (checkPath w JsonDir m)) (JsonFile f) = existsSync w (JsonFile f)"
  by (auto simp: checkPath_def existsSync_def json_files_def)

lemma cached_only_exec:
  "cached_only K w \<Longrightarrow> exec_grib2json e s w = (b, w1) \<Longrightarrow> cached_only K w1"
  using existsSync_exec[of e s w] by (auto simp: cached_only_def)

lemma cached_only_convert:
  "cached_only K w \<Longrightarrow> cached_only K (snd (convertGribToJson e w s d))"
proof (induction e w s d rule: convertGribToJson.induct)
  case (1 e w stamp' targetDate')
  let ?w0 = "snd (checkPath w JsonDir True)"
  have k0: "cached_only K ?w0" using "1.prems" by (simp add: cached_only_def)
  show ?case
  proof (cases "existsSync ?w0 (GribFile (stamp' @ ''.f000''))")
    case False
    obtain r1 w1 where g: "getGribData e ?w0 targetDate' = (r1, w1)" by force
    have k1: "cached_only K w1" by (rule cached_only_getGribData[OF k0 g])
    show ?thesis
    proof (cases r1)
      case (Inl err)
      with False g k1 show ?thesis by (subst convertGribToJson.simps) (simp add: Let_def)
    next
      case (Inr response)
      show ?thesis
      proof (cases "downloaded_stamp response")
        case None
        with False g k1 Inr show ?thesis
          by (subst convertGribToJson.simps) (simp add: Let_def)
      next
        case (Some sd)
        obtain s d where sd: "sd = (s, d)" by force
        have "cached_only K (snd (convertGribToJson e w1 s d))"
          using "1.IH"(1)[OF refl refl _ g[symmetric] Inr Some sd[symmetric] k1] False by simp
        with False g Inr Some sd show ?thesis
          by (subst convertGribToJson.simps) (simp add: Let_def)
      qed
    qed
  next
    case True
    obtain b w1 where x: "exec_grib2json e stamp' ?w0 = (b, w1)" by force
    have k1: "cached_only K w1" by (rule cached_only_exec[OF k0 x])
    show ?thesis
    proof (cases b)
      case False
      with True x k1 show ?thesis by (subst convertGribToJson.simps) (simp add: Let_def)
    next
      case b: True
      let ?w2 = "unlink_grib (stamp' @ ''.f000'') w1"
      let ?prevDate = "subHours targetDate' 6"
      let ?prevStamp = "formatDateStamp (tz e) ?prevDate"
      have k2: "cached_only K ?w2" using k1 by (auto simp: cached_only_def)
      show ?thesis
      proof (cases "existsSync ?w2 (JsonFile (?prevStamp @ ''.json''))")
        case have_prev: True
        with True x b k2 show ?thesis
          by (subst convertGribToJson.simps) (simp add: Let_def)
      next
        case no_prev: False
        obtain r3 w3 where g: "getGribData e ?w2 ?prevDate = (r3, w3)" by force
        have k3: "cached_only K w3" by (rule cached_only_getGribData[OF k2 g])
        show ?thesis
        proof (cases r3)
          case (Inl err)
          with True x b no_prev g k3 show ?thesis
            by (subst convertGribToJson.simps) (simp add: Let_def cached_only_def)
        next
          case (Inr response)
          show ?thesis
          proof (cases "downloaded_stamp response")
            case None
            with True x b no_prev g k3 Inr show ?thesis
              by (subst convertGribToJson.simps) (simp add: Let_def)
          next
            case (Some sd)
            obtain s d where sd: "sd = (s, d)" by force
            have ih: "cached_only K (snd (convertGribToJson e w3 s d))"
              using "1.IH"(2)[OF refl refl _ x[symmetric] _ refl refl refl _ g[symmetric] Inr Some
                  sd[symmetric] k3] True b no_prev by simp
            obtain r4 w4 where c: "convertGribToJson e w3 s d = (r4, w4)" by force
            with ih have "cached_only K w4" by simp
            with True x b no_prev g Inr Some sd c show ?thesis
              by (subst convertGribToJson.simps)
                 (auto simp: Let_def cached_only_def split: sum.splits)
          qed
        qed
      qed
    qed
  qed
qed

lemma convertGribToJson_failure:
  assumes raw: "existsSync w (GribFile (K @ ''.f000''))" and bad: "\<not> grib2json e (nexec w) K"
  shows "convertGribToJson e w K d =
           (Inl (ConversionError K),
            (snd (checkPath w JsonDir True))\<lparr>nexec := nexec w + 1,
               events := events w @ [Exec K False]\<rparr>)"
  using raw bad
  by (subst convertGribToJson.simps) (simp add: Let_def exec_grib2json_def)

lemma convertGribToJson_success:
  assumes raw: "existsSync w (GribFile (K @ ''.f000''))" and ok: "grib2json e (nexec w) K"
  shows "fst (convertGribToJson e w K d) = Inr ()
         \<and> cached_only K (snd (convertGribToJson e w K d))"
proof -
  let ?w0 = "snd (checkPath w JsonDir True)"
  let ?prevDate = "subHours d 6"
  let ?prevStamp = "formatDateStamp (tz e) ?prevDate"
  obtain w1 where x: "exec_grib2json e K ?w0 = (True, w1)"
    using ok by (simp add: exec_grib2json_def Let_def)
  let ?w2 = "unlink_grib (K @ ''.f000'') w1"
  have "w1 = snd (exec_grib2json e K ?w0)" by (simp add: x)
  then have k2: "cached_only K ?w2" using ok by (simp add: cached_only_def)
  show ?thesis
  proof (cases "existsSync ?w2 (JsonFile (?prevStamp @ ''.json''))")
    case True
    with raw x k2 show ?thesis
      by (subst (1 2) convertGribToJson.simps) (simp add: Let_def)
  next
    case no_prev: False
    obtain r3 w3 where g: "getGribData e ?w2 ?prevDate = (r3, w3)" by force
    have k3: "cached_only K w3" by (rule cached_only_getGribData[OF k2 g])
    show ?thesis
    proof (cases r3)
      case (Inl err)
      with raw x no_prev g k3 show ?thesis
        by (subst (1 2) convertGribToJson.simps) (simp add: Let_def cached_only_def)
    next
      case (Inr response)
      show ?thesis
      proof (cases "downloaded_stamp response")
        case None
        with raw x no_prev g k3 Inr show ?thesis
          by (subst (1 2) convertGribToJson.simps) (simp add: Let_def)
      next
        case (Some sd)
        obtain s' d' where sd: "sd = (s', d')" by force
        obtain r4 w4 where c: "convertGribToJson e w3 s' d' = (r4, w4)" by force
        with cached_only_convert[OF k3, of e s' d'] have "cached_only K w4" by simp
        with raw x no_prev g Inr Some sd c show ?thesis
          by (subst (1 2) convertGribToJson.simps)
             (auto simp: Let_def cached_only_def split: sum.splits)
      qed
    qed
  qed
qed

text \<open>
  C9. A conversion of a key whose raw artifact exists: when the converter succeeds the call
  returns normally, the raw artifact is gone and the structured artifact is there; when the
  converter fails the call returns the conversion error, the raw artifact is still there
  and both directories hold the files they held before.
\<close>

theorem convertGribToJson_raw_artifact:
  assumes raw: "existsSync w (GribFile (K @ ''.f000''))"
  shows "(grib2json e (nexec w) K \<longrightarrow>
            fst (convertGribToJson e w K d) = Inr ()
            \<and> \<not> existsSync (snd (convertGribToJson e w K d)) (GribFile (K @ ''.f000''))
            \<and> existsSync (snd (convertGribToJson e w K d)) (JsonFile (K @ ''.json'')))
       \<and> (\<not> grib2json e (nexec w) K \<longrightarrow>
            fst (convertGribToJson e w K d) = Inl (ConversionError K)
            \<and> existsSync (snd (convertGribToJson e w K d)) (GribFile (K @ ''.f000''))
            \<and> json_files (snd (convertGribToJson e w K d)) = json_files w
            \<and> grib_files (snd (convertGribToJson e w K d)) = grib_files w)"
proof (intro conjI impI)
  assume ok: "grib2json e (nexec w) K"
  from convertGribToJson_success[OF raw ok, of d]
  show "fst (convertGribToJson e w K d) = Inr ()"
    and "\<not> existsSync (snd (convertGribToJson e w K d)) (GribFile (K @ ''.f000''))"
    and "existsSync (snd (convertGribToJson e w K d)) (JsonFile (K @ ''.json''))"
    by (simp_all add: cached_only_def)
next
  assume bad: "\<not> grib2json e (nexec w) K"
  note f = convertGribToJson_failure[OF raw bad, of d]
  show "fst (convertGribToJson e w K d) = Inl (ConversionError K)" by (simp add: f)
  show "existsSync (snd (convertGribToJson e w K d)) (GribFile (K @ ''.f000''))"
    using raw by (simp add: f)
  show "json_files (snd (convertGribToJson e w K d)) = json_files w"
    by (simp add: f json_files_def checkPath_def existsSync_def)
  show "grib_files (snd (convertGribToJson e w K d)) = grib_files w"
    by (simp add: f grib_files_def checkPath_def existsSync_def)
qed

text \<open>
  Concrete surroundings: a converter that fails, and a world 10 days after the date of its
  only raw artifact, so that nothing older is harvested.
\<close>

definition converter_down :: env where
  "converter_down = \<lparr>tz = 0, http = (\<lambda>n r. Status 404), latency = (\<lambda>n. 0),
     write_ok = (\<lambda>n. True), grib2json = (\<lambda>n s. False)\<rparr>"

definition raw_ready :: world where
  "raw_ready =
     \<lparr>now = 1710133200000, json_data = None, grib_data = Some [''2024022800.f000''],
      nreq = 0, nexec = 0, events = []\<rparr>"

definition purged :: world where
  "purged =
     \<lparr>now = 1710133200000, json_data = Some [], grib_data = Some [],
      nreq = 0, nexec = 1,
      events = [Exec ''2024022800'' True, Unlink ''grib-data/2024022800.f000'',
                Unlink ''json-data/2024022800.json'']\<rparr>"

theorem convertGribToJson_raw_artifact_witness:
  "fst (convertGribToJson provider_down raw_ready ''2024022800'' 1709078400000) = Inr ()
   \<and> \<not> existsSync (snd (convertGribToJson provider_down raw_ready ''2024022800'' 1709078400000))
         (GribFile ''2024022800.f000'')
   \<and> fst (convertGribToJson converter_down raw_ready ''2024022800'' 1709078400000) =
       Inl (ConversionError ''2024022800'')
   \<and> existsSync (snd (convertGribToJson converter_down raw_ready ''2024022800'' 1709078400000))
         (GribFile ''2024022800.f000'')"
proof -
  have raw: "existsSync raw_ready (GribFile (''2024022800'' @ ''.f000''))"
    by (simp add: raw_ready_def existsSync_def grib_files_def)
  show ?thesis
    using convertGribToJson_raw_artifact[OF raw, of provider_down 1709078400000]
      convertGribToJson_raw_artifact[OF raw, of converter_down 1709078400000]
    by (simp add: provider_down_def converter_down_def)
qed

text \<open>
  C6. After a successful conversion of a key the structured artifact is there and the raw
  one is not, so a \<^verbatim>\<open>cleanupFiles\<close> run on that world unlinks the structured artifact.
  In any world with no raw artifact, a run leaves no structured artifact at all.
\<close>

theorem cleanupFiles_purges_converted:
  assumes raw: "existsSync w (GribFile (K @ ''.f000''))"
    and ok: "grib2json e (nexec w) K"
    and key: "CHR ''.'' \<notin> set K"
    and clean: "cleanupFiles (snd (convertGribToJson e w K d)) = Inr w2"
  shows "existsSync (snd (convertGribToJson e w K d)) (JsonFile (K @ ''.json''))
       \<and> \<not> existsSync (snd (convertGribToJson e w K d)) (GribFile (K @ ''.f000''))
       \<and> \<not> existsSync w2 (JsonFile (K @ ''.json''))
       \<and> (\<forall>v v'. list_all (\<lambda>f. \<not> endsWith f ''.f000'') (grib_files v) \<longrightarrow>
             cleanupFiles v = Inr v' \<longrightarrow>
             list_all (\<lambda>f. \<not> endsWith f ''.json'') (json_files v'))"
proof -
  from convertGribToJson_success[OF raw ok, of d]
  have c: "existsSync (snd (convertGribToJson e w K d)) (JsonFile (K @ ''.json''))"
    "\<not> existsSync (snd (convertGribToJson e w K d)) (GribFile (K @ ''.f000''))"
    by (simp_all add: cached_only_def)
  from cleanupFiles_keeps_pairs(1)[OF clean key] c
  have p: "\<not> existsSync w2 (JsonFile (K @ ''.json''))" by simp
  have s: "list_all (\<lambda>f. \<not> endsWith f ''.json'') (json_files v')"
    if none: "list_all (\<lambda>f. \<not> endsWith f ''.f000'') (grib_files v)"
      and run: "cleanupFiles v = Inr v'" for v v'
  proof -
    from run obtain js gs where f:
      "json_data v = Some js" "grib_data v = Some gs"
      "json_data v' = Some (filter (\<lambda>(g, _). \<not> (g \<in> set (map fst js) \<and> endsWith g ''.json''
         \<and> replace_first ''.json'' g @ ''.f000'' \<notin> set (filter (\<lambda>f. endsWith f ''.f000'') gs))) js)"
      by (rule cleanupFiles_fields)
    from none have "filter (\<lambda>f. endsWith f ''.f000'') gs = []"
      by (simp add: grib_files_def f filter_empty_conv list_all_iff)
    then show ?thesis
      by (force simp: json_files_def f list_all_iff)
  qed
  from c p s show ?thesis by blast
qed

theorem cleanupFiles_purges_converted_witness:
  "cleanupFiles (snd (convertGribToJson provider_down raw_ready ''2024022800'' 1709078400000))
     = Inr purged
   \<and> \<not> existsSync purged (JsonFile ''2024022800.json'')"
proof -
  have raw: "existsSync raw_ready (GribFile (''2024022800'' @ ''.f000''))"
    by (simp add: raw_ready_def existsSync_def grib_files_def)
  have ok: "grib2json provider_down (nexec raw_ready) ''2024022800''"
    by (simp add: provider_down_def)
  have key: "CHR ''.'' \<notin> set ''2024022800''" by simp
  have clean: "cleanupFiles
      (snd (convertGribToJson provider_down raw_ready ''2024022800'' 1709078400000)) = Inr purged"
    by code_simp
  from cleanupFiles_purges_converted[OF raw ok key clean] clean show ?thesis by simp
qed

section \<open>CacheStore: checkDataFreshness\<close>

text \<open>
  \<^verbatim>\<open>differenceInHours\<close> of date-fns: the whole hours between two times, truncated towards
  zero.
\<close>

definition differenceInHours :: "int \<Rightarrow> int \<Rightarrow> int" where
  "differenceInHours laterDate earlierDate =
     (let diff = laterDate - earlierDate
      in if 0 \<le> diff then diff div msPerHour else - ((- diff) div msPerHour))"

text \<open>
  The background task started for one stale file: the stamp is read back to a date (an
  Invalid Date makes \<^verbatim>\<open>getGribData\<close> reject, and the rejection is caught), the date is
  fetched, and a response that reports a download is converted. The conversion is not
  awaited and its errors are not caught; they reach no caller.
\<close>

definition refetch :: "env \<Rightarrow> string \<Rightarrow> world \<Rightarrow> world" where
  "refetch e jsonFile w =
     (let stamp' = replace_first ''.json'' jsonFile
      in case parse_stamp stamp' of
           None \<Rightarrow> swallow stamp' w
         | Some date \<Rightarrow>
             (case getGribData e w date of
                (Inl err, w1) \<Rightarrow> swallow stamp' w1
              | (Inr response, w1) \<Rightarrow>
                  (case downloaded_stamp response of
                     Some (s, d) \<Rightarrow> snd (convertGribToJson e w1 s d)
                   | None \<Rightarrow> w1)))"

text \<open>
  \<^verbatim>\<open>checkDataFreshness(maxAgeHours)\<close>: the directory is listed (a missing directory
  throws), the age of every \<^verbatim>\<open>.json\<close> file is taken at the time of the call, and a task is
  started for each file older than \<open>maxAgeHours\<close> whole hours. The tasks are detached; here
  they run one after the other, in the order of the listing.
\<close>

definition checkDataFreshness :: "env \<Rightarrow> world \<Rightarrow> int \<Rightarrow> (error + unit) \<times> world" where
  "checkDataFreshness e w maxAgeHours =
     (case json_data w of
        None \<Rightarrow> (Inl (ENOENT ''json-data''), w)
      | Some js \<Rightarrow>
          (let stale = filter (\<lambda>(jsonFile, mtime).
                           endsWith jsonFile ''.json''
                           \<and> differenceInHours (now w) mtime > maxAgeHours) js
           in (Inr (), fold (\<lambda>(jsonFile, mtime). refetch e jsonFile) stale w)))"

text \<open>
  Concrete surroundings: a cache whose only entry, for the key 2024030100, was written on
  2024-03-01T00:00Z and is read on 2024-03-10T11:30Z, and a provider whose first four
  answers are 404.
\<close>

definition stale_cache :: world where
  "stale_cache =
     \<lparr>now = 1710070200001, json_data = Some [(''2024030100.json'', 1709251200000)],
      grib_data = Some [], nreq = 0, nexec = 0, events = []\<rparr>"

definition provider_flaky :: env where
  "provider_flaky = \<lparr>tz = 0, http = (\<lambda>n r. if n = 4 then Status 200 else Status 404),
     latency = (\<lambda>n. 0), write_ok = (\<lambda>n. True), grib2json = (\<lambda>n s. True)\<rparr>"

text \<open>
  C3. With the provider up, the task for the stale key 2024030100 issues one request and
  stops there: the structured artifact exists, so nothing is downloaded, the converter is
  not run and the file keeps its old modification time. With a provider that fails four
  times, the task steps back, and downloads and converts the adjacent key 2024022918
  instead. A file that is 24 hours and 30 minutes old starts no task with the threshold 24.
\<close>

theorem checkDataFreshness_never_reconverts_cached_key:
  "checkDataFreshness provider_up stale_cache 24 =
     (Inr (), stale_cache\<lparr>nreq := 1,
        events := [Request 1710070200001 1709251200000 ''2024030100'']\<rparr>)
   \<and> checkDataFreshness provider_flaky stale_cache 24 =
     (Inr (),
      \<lparr>now = 1710070214001,
       json_data = Some [(''2024030100.json'', 1709251200000),
                         (''2024022918.json'', 1710070207001)],
       grib_data = Some [], nreq = 9, nexec = 1,
       events =
         [Request 1710070200001 1709251200000 ''2024030100'', Sleep 1000,
          Request 1710070201001 1709251200000 ''2024030100'', Sleep 2000,
          Request 1710070203001 1709251200000 ''2024030100'', Sleep 4000,
          Request 1710070207001 1709251200000 ''2024030100'',
          Request 1710070207001 1709229600000 ''2024022918'',
          Exec ''2024022918'' True, Unlink ''grib-data/2024022918.f000'',
          Request 1710070207001 1709208000000 ''2024022912'', Sleep 1000,
          Request 1710070208001 1709208000000 ''2024022912'', Sleep 2000,
          Request 1710070210001 1709208000000 ''2024022912'', Sleep 4000,
          Request 1710070214001 1709208000000 ''2024022912'']\<rparr>)
   \<and> checkDataFreshness provider_up (stale_cache\<lparr>now := 1709339400000\<rparr>) 24 =
     (Inr (), stale_cache\<lparr>now := 1709339400000\<rparr>)"
  by code_simp

section \<open>NearestResolver: sendNearestTo\<close>

text \<open>
  A time value lies within 8.64e15 ms of the epoch: \<^verbatim>\<open>new Date(value)\<close> with a number outside
  that range is an Invalid Date, here \<open>None\<close>.
\<close>

definition maxTime :: int where
  "maxTime = 8640000000000000"

definition new_Date_value :: "int \<Rightarrow> int option" where
  "new_Date_value v = (if \<bar>v\<bar> \<le> maxTime then Some v else None)"

text \<open>\<^verbatim>\<open>gribData.stamp\<close> as a condition: the stamp and the date of a response that has one.\<close>

definition found_stamp :: "GribDataResponse \<Rightarrow> (string \<times> int) option" where
  "found_stamp gribData =
     (case (stamp gribData, targetDate gribData) of
        (Some s, Some d) \<Rightarrow> if s \<noteq> [] then Some (s, d) else None
      | _ \<Rightarrow> None)"

text \<open>
  The response object \<^verbatim>\<open>res\<close>: whether \<^verbatim>\<open>res.sendFile\<close> of the file of a stamp succeeds is
  up to Express. It refuses a path with a \<^verbatim>\<open>..\<close> segment when no root is given, as the path
  built by \<^verbatim>\<open>sendNearestTo\<close> is: \<open>forbidden\<close> is that response.
\<close>

record Response =
  sendFile :: "string \<Rightarrow> bool"

definition forbidden :: Response where
  "forbidden = \<lparr>sendFile = (\<lambda>fileName. False)\<rparr>"

text \<open>
  One call of \<^verbatim>\<open>sendNearestTo\<close> either ends the search, by sending the file of a stamp or
  by throwing, or makes one further call, with a new target and direction.
\<close>

datatype step = Call world "int option" bool | Done "(error + string) \<times> world"

text \<open>
  \<^verbatim>\<open>searchLimit && Math.abs(now - targetDate) / (1000*60*60*24) >= searchLimit\<close>. The limit
  comes from \<^verbatim>\<open>parseInt\<close>: \<open>None\<close> is a missing or unreadable limit, and 0 counts as no
  limit. The division is exact on integer milliseconds.
\<close>

definition search_limit_hit :: "world \<Rightarrow> int \<Rightarrow> int option \<Rightarrow> bool" where
  "search_limit_hit w targetDate' searchLimit =
     (case searchLimit of
        None \<Rightarrow> False
      | Some l \<Rightarrow> l \<noteq> 0 \<and> l * msPerDay \<le> \<bar>now w - targetDate'\<bar>)"

definition nextTarget :: "int \<Rightarrow> bool \<Rightarrow> int option" where
  "nextTarget targetDate' searchForwards =
     (if searchForwards then new_Date_value (targetDate' + 6 * 60 * 60 * 1000)
      else new_Date_value (targetDate' - 6 * 60 * 60 * 1000))"

text \<open>
  The body of \<^verbatim>\<open>sendNearestTo(res, targetDate, searchLimit, searchForwards)\<close>. On an Invalid
  Date the limit test is false, \<^verbatim>\<open>getGribData\<close> passes both of its comparisons and
  \<^verbatim>\<open>format\<close> throws a \<^verbatim>\<open>RangeError\<close>, here \<open>InvalidTime\<close>: the call rejects. The
  conversion of a found stamp is started and not awaited: \<^verbatim>\<open>sendFile\<close> looks at the cache
  as it is before the conversion, and the conversion is run to its end before the next call;
  its errors reach no caller. When \<^verbatim>\<open>sendFile\<close> fails, its callback makes the next call,
  which nobody awaits: an error thrown after a failed \<open>SendFile\<close> reaches no caller either.
\<close>

definition sendNearestTo_step ::
  "env \<Rightarrow> Response \<Rightarrow> world \<Rightarrow> int option \<Rightarrow> int option \<Rightarrow> bool \<Rightarrow> step" where
  "sendNearestTo_step e res w0 targetDate' searchLimit searchForwards =
     (let w = w0\<lparr>events := events w0 @ [Search targetDate' searchForwards]\<rparr>
      in case targetDate' of
           None \<Rightarrow> Done (Inl InvalidTime, w)
         | Some t \<Rightarrow>
             if search_limit_hit w t searchLimit then
               (if \<not> searchForwards then
                  Call w (new_Date_value
                            (t + (case searchLimit of Some l \<Rightarrow> l | None \<Rightarrow> 0)
                                   * 24 * 60 * 60 * 1000)) True
                else Done (Inl NoDataWithinSearchLimit, w))
             else
               (case getGribData e w t of
                  (Inl err, w1) \<Rightarrow> Done (Inl err, w1)
                | (Inr gribData, w1) \<Rightarrow>
                    (case found_stamp gribData of
                       Some (s, d) \<Rightarrow>
                         (let sent = (existsSync w1 (JsonFile (s @ ''.json''))
                                      \<and> sendFile res (s @ ''.json''));
                              w2 = snd (convertGribToJson e w1 s d);
                              w3 = w2\<lparr>events := events w2 @ [SendFile s sent]\<rparr>
                          in if sent then Done (Inr s, w3)
                             else Call w3 (nextTarget t searchForwards) searchForwards)
                     | None \<Rightarrow> Call w1 (nextTarget t searchForwards) searchForwards)))"

text \<open>
  \<^verbatim>\<open>sendNearestTo\<close> is the chain of its calls, awaited or made by a callback; \<open>None\<close> is
  a chain that never ends.
\<close>

partial_function (option) sendNearestTo ::
  "env \<Rightarrow> Response \<Rightarrow> world \<Rightarrow> int option \<Rightarrow> int option \<Rightarrow> bool
     \<Rightarrow> ((error + string) \<times> world) option" where
  "sendNearestTo e res w targetDate' searchLimit searchForwards =
     (case sendNearestTo_step e res w targetDate' searchLimit searchForwards of
        Done r \<Rightarrow> Some r
      | Call w' nextTarget' forwards' \<Rightarrow>
          sendNearestTo e res w' nextTarget' searchLimit forwards')"

declare sendNearestTo.simps [code]

text \<open>The first \<open>k\<close> calls of a search: the call that comes next, or the outcome.\<close>

fun sendNearestTo_calls ::
  "nat \<Rightarrow> env \<Rightarrow> Response \<Rightarrow> world \<Rightarrow> int option \<Rightarrow> int option \<Rightarrow> bool \<Rightarrow> step" where
  "sendNearestTo_calls 0 e res w targetDate' searchLimit searchForwards =
     Call w targetDate' searchForwards"
| "sendNearestTo_calls (Suc k) e res w targetDate' searchLimit searchForwards =
     (case sendNearestTo_step e res w targetDate' searchLimit searchForwards of
        Done r \<Rightarrow> Done r
      | Call w' nextTarget' forwards' \<Rightarrow>
          sendNearestTo_calls k e res w' nextTarget' searchLimit forwards')"

definition next_call :: "step \<Rightarrow> (int option \<times> bool) option" where
  "next_call s = (case s of Call w t f \<Rightarrow> Some (t, f) | Done r \<Rightarrow> None)"

text \<open>Concrete surroundings: a provider that is up with a converter that always fails.\<close>

definition converter_broken :: env where
  "converter_broken = \<lparr>tz = 0, http = (\<lambda>n r. Status 200), latency = (\<lambda>n. 0),
     write_ok = (\<lambda>n. True), grib2json = (\<lambda>n s. False)\<rparr>"

subsection \<open>Properties of sendNearestTo\<close>

lemma runQuery_provider_down:
  assumes "\<forall>n r. http e n r \<noteq> Status 200"
  shows "fst (runQuery e w d r) = Inr unavailable"
proof (rule runQuery_result_induct[where P = "\<lambda>e' w d r res.
    e' = e \<longrightarrow> fst res = Inr unavailable", rule_format, OF _ _ _ _ refl], goal_cases)
  case (1 e w d r)
  then show ?case by simp
next
  case (2 e' w d r)
  with assms show ?case by simp
next
  case (3 e w d r)
  then show ?case by simp
next
  case (4 e w d r)
  then show ?case by simp
qed

lemma getGribData_provider_down:
  assumes "\<forall>n r. http e n r \<noteq> Status 200"
  shows "fst (getGribData e w t) = Inr unavailable"
  using runQuery_provider_down[OF assms] by (simp add: getGribData_def Let_def)

lemma getGribData_far:
  assumes "now w - t > 10 * msPerDay"
  shows "getGribData e w t = (Inr unavailable, w)"
proof -
  have "runQuery e w x 0 = (Inr unavailable, w)" if "x \<le> t" for x
    using that assms by (subst runQuery.simps) simp
  then show ?thesis by (simp add: getGribData_def Let_def)
qed

lemma found_stamp_unavailable [simp]: "found_stamp unavailable = None"
  by (simp add: found_stamp_def unavailable_def)

lemma step_invalid:
  "sendNearestTo_step e res w None searchLimit fw =
     Done (Inl InvalidTime, w\<lparr>events := events w @ [Search None fw]\<rparr>)"
  by (simp add: sendNearestTo_step_def)

lemma step_unavailable:
  assumes nolimit: "searchLimit = None \<or> searchLimit = Some 0"
    and unav: "fst (getGribData e (w\<lparr>events := events w @ [Search (Some t) fw]\<rparr>) t)
                 = Inr unavailable"
  shows "sendNearestTo_step e res w (Some t) searchLimit fw =
           Call (snd (getGribData e (w\<lparr>events := events w @ [Search (Some t) fw]\<rparr>) t))
             (nextTarget t fw) fw"
proof -
  let ?w = "w\<lparr>events := events w @ [Search (Some t) fw]\<rparr>"
  obtain r1 w1 where g: "getGribData e ?w t = (r1, w1)" by force
  with unav have "r1 = Inr unavailable" by simp
  with g nolimit show ?thesis
    by (auto simp: sendNearestTo_step_def Let_def search_limit_hit_def)
qed

lemma calls_shift:
  assumes "sendNearestTo_step e res w T searchLimit fw = Call w1 T1 fw1"
  shows "sendNearestTo_calls (Suc k) e res w T searchLimit fw =
           sendNearestTo_calls k e res w1 T1 searchLimit fw1"
  using assms by simp

lemma walk_ends:
  assumes nolimit: "searchLimit = None \<or> searchLimit = Some 0"
  shows "\<bar>t\<bar> \<le> maxTime \<Longrightarrow>
    (\<forall>k w' t'. sendNearestTo_calls k e res w (Some t) searchLimit False = Call w' (Some t') False
        \<longrightarrow> fst (getGribData e (w'\<lparr>events := events w' @ [Search (Some t') False]\<rparr>) t')
              = Inr unavailable) \<Longrightarrow>
    \<exists>w'. sendNearestTo e res w (Some t) searchLimit False = Some (Inl InvalidTime, w')"
proof (induction "nat (t + maxTime)" arbitrary: w t rule: less_induct)
  case less
  let ?w = "w\<lparr>events := events w @ [Search (Some t) False]\<rparr>"
  let ?w1 = "snd (getGribData e ?w t)"
  have "fst (getGribData e ?w t) = Inr unavailable"
    using less.prems(2)[rule_format, of 0 w t] by simp
  from step_unavailable[OF nolimit this]
  have s: "sendNearestTo_step e res w (Some t) searchLimit False =
             Call ?w1 (nextTarget t False) False" .
  show ?case
  proof (cases "nextTarget t False")
    case None
    with s have "sendNearestTo e res w (Some t) searchLimit False =
                 sendNearestTo e res ?w1 None searchLimit False"
      by (subst sendNearestTo.simps) simp
    also have "\<dots> = Some (Inl InvalidTime, ?w1\<lparr>events := events ?w1 @ [Search None False]\<rparr>)"
      by (subst sendNearestTo.simps) (simp add: step_invalid)
    finally show ?thesis by blast
  next
    case (Some t1)
    then have t1: "t1 = t - 21600000" "\<bar>t1\<bar> \<le> maxTime"
      by (auto simp: nextTarget_def new_Date_value_def split: if_splits)
    with less.prems(1) have m: "nat (t1 + maxTime) < nat (t + maxTime)"
      by (simp add: maxTime_def)
    from s Some have s': "sendNearestTo_step e res w (Some t) searchLimit False =
             Call ?w1 (Some t1) False" by simp
    have u: "\<forall>k w' t'. sendNearestTo_calls k e res ?w1 (Some t1) searchLimit False
                = Call w' (Some t') False
        \<longrightarrow> fst (getGribData e (w'\<lparr>events := events w' @ [Search (Some t') False]\<rparr>) t')
              = Inr unavailable"
    proof (intro allI impI)
      fix k w' t'
      assume "sendNearestTo_calls k e res ?w1 (Some t1) searchLimit False
                = Call w' (Some t') False"
      then have "sendNearestTo_calls (Suc k) e res w (Some t) searchLimit False
                = Call w' (Some t') False"
        by (simp only: calls_shift[OF s'])
      with less.prems(2) show "fst (getGribData e
          (w'\<lparr>events := events w' @ [Search (Some t') False]\<rparr>) t') = Inr unavailable"
        by blast
    qed
    from less.hyps[OF m t1(2) u] obtain w' where
      "sendNearestTo e res ?w1 (Some t1) searchLimit False = Some (Inl InvalidTime, w')"
      by blast
    moreover have "sendNearestTo e res w (Some t) searchLimit False =
                   sendNearestTo e res ?w1 (Some t1) searchLimit False"
      using s' by (subst sendNearestTo.simps) simp
    ultimately show ?thesis by simp
  qed
qed


lemma walk_calls:
  assumes nolimit: "searchLimit = None \<or> searchLimit = Some 0"
  shows "- maxTime \<le> t - int k * (6 * msPerHour) \<Longrightarrow> t \<le> maxTime \<Longrightarrow>
    (\<forall>k w' t'. sendNearestTo_calls k e res w (Some t) searchLimit False = Call w' (Some t') False
        \<longrightarrow> fst (getGribData e (w'\<lparr>events := events w' @ [Search (Some t') False]\<rparr>) t')
              = Inr unavailable) \<Longrightarrow>
    \<exists>w'. sendNearestTo_calls k e res w (Some t) searchLimit False =
            Call w' (Some (t - int k * (6 * msPerHour))) False
          \<and> sendNearestTo_calls (Suc k) e res w (Some t) searchLimit False =
            Call (snd (getGribData e
                    (w'\<lparr>events := events w' @ [Search (Some (t - int k * (6 * msPerHour))) False]\<rparr>)
                    (t - int k * (6 * msPerHour))))
              (new_Date_value (t - int (Suc k) * (6 * msPerHour))) False"
proof (induction k arbitrary: w t)
  case 0
  let ?w = "w\<lparr>events := events w @ [Search (Some t) False]\<rparr>"
  have "fst (getGribData e ?w t) = Inr unavailable"
    using 0(3)[rule_format, of 0 w t] by simp
  from step_unavailable[OF nolimit this] show ?case
    by (simp add: nextTarget_def msPerHour_def)
next
  case (Suc k)
  let ?w = "w\<lparr>events := events w @ [Search (Some t) False]\<rparr>"
  let ?w1 = "snd (getGribData e ?w t)"
  let ?t1 = "t - 21600000"
  have "fst (getGribData e ?w t) = Inr unavailable"
    using Suc.prems(3)[rule_format, of 0 w t] by simp
  from step_unavailable[OF nolimit this]
  have "sendNearestTo_step e res w (Some t) searchLimit False =
             Call ?w1 (nextTarget t False) False" .
  moreover have "nextTarget t False = Some ?t1"
    using Suc.prems(1,2) by (simp add: nextTarget_def new_Date_value_def msPerHour_def)
  ultimately have s: "sendNearestTo_step e res w (Some t) searchLimit False =
             Call ?w1 (Some ?t1) False" by simp
  have u: "\<forall>k w' t'. sendNearestTo_calls k e res ?w1 (Some ?t1) searchLimit False
                = Call w' (Some t') False
        \<longrightarrow> fst (getGribData e (w'\<lparr>events := events w' @ [Search (Some t') False]\<rparr>) t')
              = Inr unavailable"
  proof (intro allI impI)
    fix k w' t'
    assume "sendNearestTo_calls k e res ?w1 (Some ?t1) searchLimit False
              = Call w' (Some t') False"
    then have "sendNearestTo_calls (Suc k) e res w (Some t) searchLimit False
              = Call w' (Some t') False"
      by (simp only: calls_shift[OF s])
    with Suc.prems(3) show "fst (getGribData e
        (w'\<lparr>events := events w' @ [Search (Some t') False]\<rparr>) t') = Inr unavailable"
      by blast
  qed
  have e1: "?t1 - int k * (6 * msPerHour) = t - int (Suc k) * (6 * msPerHour)"
    by (simp add: msPerHour_def algebra_simps)
  have e2: "?t1 - int (Suc k) * (6 * msPerHour) = t - int (Suc (Suc k)) * (6 * msPerHour)"
    by (simp add: msPerHour_def algebra_simps)
  have "- maxTime \<le> ?t1 - int k * (6 * msPerHour)" "?t1 \<le> maxTime"
    using Suc.prems(1,2) by (simp_all add: msPerHour_def algebra_simps)
  from Suc.IH[OF this u] obtain w' where
    "sendNearestTo_calls k e res ?w1 (Some ?t1) searchLimit False =
       Call w' (Some (?t1 - int k * (6 * msPerHour))) False
     \<and> sendNearestTo_calls (Suc k) e res ?w1 (Some ?t1) searchLimit False =
       Call (snd (getGribData e
               (w'\<lparr>events := events w' @ [Search (Some (?t1 - int k * (6 * msPerHour))) False]\<rparr>)
               (?t1 - int k * (6 * msPerHour))))
         (new_Date_value (?t1 - int (Suc k) * (6 * msPerHour))) False"
    by blast
  then have "sendNearestTo_calls (Suc k) e res w (Some t) searchLimit False =
       Call w' (Some (t - int (Suc k) * (6 * msPerHour))) False
     \<and> sendNearestTo_calls (Suc (Suc k)) e res w (Some t) searchLimit False =
       Call (snd (getGribData e
               (w'\<lparr>events := events w' @ [Search (Some (t - int (Suc k) * (6 * msPerHour))) False]\<rparr>)
               (t - int (Suc k) * (6 * msPerHour))))
         (new_Date_value (t - int (Suc (Suc k)) * (6 * msPerHour))) False"
    by (simp only: calls_shift[OF s] e1 e2)
  then show ?case by blast
qed

lemma calls_end:
  "sendNearestTo_calls n e res w T searchLimit fw = Call w' T' fw' \<Longrightarrow>
   sendNearestTo_calls (Suc n) e res w T searchLimit fw =
     sendNearestTo_step e res w' T' searchLimit fw'"
proof (induction n arbitrary: w T fw)
  case 0
  then show ?case by (simp split: step.splits)
next
  case (Suc n)
  show ?case
  proof (cases "sendNearestTo_step e res w T searchLimit fw")
    case (Call w1 T1 fw1)
    with Suc.prems have "sendNearestTo_calls n e res w1 T1 searchLimit fw1 = Call w' T' fw'"
      by simp
    from Suc.IH[OF this] Call show ?thesis by simp
  next
    case (Done r)
    with Suc.prems show ?thesis by simp
  qed
qed

lemma walk_last:
  assumes nolimit: "searchLimit = None \<or> searchLimit = Some 0"
    and inr: "- maxTime \<le> t - int k * (6 * msPerHour)" "t \<le> maxTime"
    and out: "t - int (Suc k) * (6 * msPerHour) < - maxTime"
    and unav: "\<forall>k w' t'. sendNearestTo_calls k e res w (Some t) searchLimit False
                = Call w' (Some t') False
        \<longrightarrow> fst (getGribData e (w'\<lparr>events := events w' @ [Search (Some t') False]\<rparr>) t')
              = Inr unavailable"
  shows "\<exists>w'. sendNearestTo_calls (Suc k) e res w (Some t) searchLimit False = Call w' None False
             \<and> sendNearestTo_calls (Suc (Suc k)) e res w (Some t) searchLimit False =
                 Done (Inl InvalidTime, w'\<lparr>events := events w' @ [Search None False]\<rparr>)"
proof -
  from walk_calls[OF nolimit inr unav] obtain w' where
    c: "sendNearestTo_calls (Suc k) e res w (Some t) searchLimit False =
            Call (snd (getGribData e
                    (w'\<lparr>events := events w' @ [Search (Some (t - int k * (6 * msPerHour))) False]\<rparr>)
                    (t - int k * (6 * msPerHour))))
              (new_Date_value (t - int (Suc k) * (6 * msPerHour))) False"
    by blast
  have n: "new_Date_value (t - int (Suc k) * (6 * msPerHour)) = None"
    using out by (simp add: new_Date_value_def maxTime_def)
  let ?w = "snd (getGribData e
                    (w'\<lparr>events := events w' @ [Search (Some (t - int k * (6 * msPerHour))) False]\<rparr>)
                    (t - int k * (6 * msPerHour)))"
  from c n have c': "sendNearestTo_calls (Suc k) e res w (Some t) searchLimit False =
      Call ?w None False" by simp
  have "sendNearestTo_calls (Suc (Suc k)) e res w (Some t) searchLimit False =
      Done (Inl InvalidTime, ?w\<lparr>events := events ?w @ [Search None False]\<rparr>)"
    by (simp only: calls_end[OF c'] step_invalid)
  with c' show ?thesis by blast
qed


lemma calls_far:
  assumes nolimit: "searchLimit = None \<or> searchLimit = Some 0"
  shows "now w - t > 10 * msPerDay \<Longrightarrow>
    sendNearestTo_calls k e res w (Some t) searchLimit False = Call w' (Some t') False \<Longrightarrow>
    now w' - t' > 10 * msPerDay"
proof (induction k arbitrary: w t)
  case 0
  then show ?case by simp
next
  case (Suc k)
  let ?w = "w\<lparr>events := events w @ [Search (Some t) False]\<rparr>"
  have g: "getGribData e ?w t = (Inr unavailable, ?w)"
    using Suc.prems(1) by (simp add: getGribData_far)
  then have "fst (getGribData e ?w t) = Inr unavailable" by simp
  from step_unavailable[OF nolimit this] g
  have s: "sendNearestTo_step e res w (Some t) searchLimit False =
             Call ?w (nextTarget t False) False" by simp
  show ?case
  proof (cases "nextTarget t False")
    case None
    with s Suc.prems(2) have "sendNearestTo_calls k e res ?w None searchLimit False =
        Call w' (Some t') False" by simp
    then show ?thesis by (cases k) (simp_all add: step_invalid)
  next
    case (Some t1)
    then have "t1 = t - 21600000"
      by (auto simp: nextTarget_def new_Date_value_def split: if_splits)
    with Suc.prems(1) have f: "now ?w - t1 > 10 * msPerDay" by simp
    from s Some Suc.prems(2) have "sendNearestTo_calls k e res ?w (Some t1) searchLimit False =
        Call w' (Some t') False" by simp
    from Suc.IH[OF f this] show ?thesis .
  qed
qed

lemma unavailable_beyond_lookback:
  assumes nolimit: "searchLimit = None \<or> searchLimit = Some 0"
    and far: "now w - t > 10 * msPerDay"
  shows "\<forall>k w' t'. sendNearestTo_calls k e res w (Some t) searchLimit False
                = Call w' (Some t') False
        \<longrightarrow> fst (getGribData e (w'\<lparr>events := events w' @ [Search (Some t') False]\<rparr>) t')
              = Inr unavailable"
proof (intro allI impI)
  fix k w' t'
  assume "sendNearestTo_calls k e res w (Some t) searchLimit False = Call w' (Some t') False"
  from calls_far[OF nolimit far this]
  show "fst (getGribData e (w'\<lparr>events := events w' @ [Search (Some t') False]\<rparr>) t')
          = Inr unavailable"
    by (simp add: getGribData_far)
qed

lemma unavailable_provider_down:
  assumes "\<forall>n r. http e n r \<noteq> Status 200"
  shows "\<forall>k w' t'. sendNearestTo_calls k e res w (Some t) searchLimit False
                = Call w' (Some t') False
        \<longrightarrow> fst (getGribData e (w'\<lparr>events := events w' @ [Search (Some t') False]\<rparr>) t')
              = Inr unavailable"
  using getGribData_provider_down[OF assms] by simp

text \<open>
  C10, as amended. With no search limit (or the limit 0) and every fetch of the search
  unavailable, no test ends the recursion: every call makes a further call 6 hours earlier,
  for as long as the target is a time value. The first target below the range of time
  values is an Invalid Date; the call on it throws, and that error, never the error of the
  search limit, ends the search.
\<close>

theorem sendNearestTo_without_limit_ends_out_of_range:
  assumes nolimit: "searchLimit = None \<or> searchLimit = Some 0"
    and valid: "\<bar>t\<bar> \<le> maxTime"
    and unav: "\<forall>k w' t'. sendNearestTo_calls k e res w (Some t) searchLimit False
                = Call w' (Some t') False
        \<longrightarrow> fst (getGribData e (w'\<lparr>events := events w' @ [Search (Some t') False]\<rparr>) t')
              = Inr unavailable"
  shows "(\<exists>w'. sendNearestTo e res w (Some t) searchLimit False = Some (Inl InvalidTime, w'))
       \<and> (\<forall>w'. sendNearestTo e res w (Some t) searchLimit False
                  \<noteq> Some (Inl NoDataWithinSearchLimit, w'))
       \<and> (\<forall>k. - maxTime \<le> t - int k * (6 * msPerHour) \<longrightarrow>
             (\<exists>w'. sendNearestTo_calls k e res w (Some t) searchLimit False =
                      Call w' (Some (t - int k * (6 * msPerHour))) False))
       \<and> (\<forall>k. - maxTime \<le> t - int k * (6 * msPerHour)
               \<and> t - int (Suc k) * (6 * msPerHour) < - maxTime \<longrightarrow>
             (\<exists>w'. sendNearestTo_calls (Suc k) e res w (Some t) searchLimit False =
                      Call w' None False
                  \<and> sendNearestTo_calls (Suc (Suc k)) e res w (Some t) searchLimit False =
                      Done (Inl InvalidTime, w'\<lparr>events := events w' @ [Search None False]\<rparr>)))"
proof -
  from valid have le: "t \<le> maxTime" by simp
  have a: "\<exists>w'. sendNearestTo e res w (Some t) searchLimit False = Some (Inl InvalidTime, w')"
    by (rule walk_ends[OF nolimit valid unav])
  have b: "\<exists>w'. sendNearestTo_calls k e res w (Some t) searchLimit False =
                      Call w' (Some (t - int k * (6 * msPerHour))) False"
    if "- maxTime \<le> t - int k * (6 * msPerHour)" for k
    using walk_calls[OF nolimit that le unav] by blast
  have c: "\<exists>w'. sendNearestTo_calls (Suc k) e res w (Some t) searchLimit False =
                      Call w' None False
                  \<and> sendNearestTo_calls (Suc (Suc k)) e res w (Some t) searchLimit False =
                      Done (Inl InvalidTime, w'\<lparr>events := events w' @ [Search None False]\<rparr>)"
    if "- maxTime \<le> t - int k * (6 * msPerHour)
               \<and> t - int (Suc k) * (6 * msPerHour) < - maxTime" for k
    using walk_last[OF nolimit conjunct1[OF that] le conjunct2[OF that] unav] .
  from a have a': "\<forall>w'. sendNearestTo e res w (Some t) searchLimit False
                  \<noteq> Some (Inl NoDataWithinSearchLimit, w')"
    by auto
  from a a' b c show ?thesis by blast
qed

theorem sendNearestTo_without_limit_ends_out_of_range_witness:
  "(\<exists>w'. sendNearestTo provider_up forbidden (empty_cache 1710133200001) (Some 1709269200000)
            None False = Some (Inl InvalidTime, w'))
   \<and> (\<exists>w'. sendNearestTo_calls 400079132 provider_up forbidden (empty_cache 1710133200001)
              (Some 1709269200000) None False = Call w' (Some (- 8639999982000000)) False)
   \<and> (\<exists>w'. sendNearestTo_calls (Suc 400079132) provider_up forbidden
              (empty_cache 1710133200001) (Some 1709269200000) None False = Call w' None False
          \<and> sendNearestTo_calls (Suc (Suc 400079132)) provider_up forbidden
              (empty_cache 1710133200001) (Some 1709269200000) None False =
              Done (Inl InvalidTime, w'\<lparr>events := events w' @ [Search None False]\<rparr>))"
proof -
  have far: "now (empty_cache 1710133200001) - 1709269200000 > 10 * msPerDay"
    by (simp add: empty_cache_def msPerDay_def)
  have nolimit: "(None :: int option) = None \<or> (None :: int option) = Some 0" by simp
  have valid: "\<bar>1709269200000\<bar> \<le> maxTime" by (simp add: maxTime_def)
  note T = sendNearestTo_without_limit_ends_out_of_range[OF nolimit valid
      unavailable_beyond_lookback[OF nolimit far], of provider_up forbidden]
  have k: "(1709269200000::int) - int 400079132 * (6 * msPerHour) = - 8639999982000000"
    by (simp add: msPerHour_def)
  have k1: "- maxTime \<le> (1709269200000::int) - int 400079132 * (6 * msPerHour)
      \<and> (1709269200000::int) - int (Suc 400079132) * (6 * msPerHour) < - maxTime"
    by (simp add: msPerHour_def maxTime_def)
  from T[THEN conjunct2, THEN conjunct2, THEN conjunct1, rule_format, OF conjunct1[OF k1]]
  have b: "\<exists>w'. sendNearestTo_calls 400079132 provider_up forbidden (empty_cache 1710133200001)
              (Some 1709269200000) None False = Call w' (Some (- 8639999982000000)) False"
    by (simp only: k)
  from T[THEN conjunct1] b T[THEN conjunct2, THEN conjunct2, THEN conjunct2, rule_format, OF k1]
  show ?thesis by (intro conjI)
qed

text \<open>
  C10, as stated, fails: a search without limit for 06:00 on the first day of the range of
  time values (\<^verbatim>\<open>-271821-04-20T06:00:00Z\<close>) finds both fetches unavailable and ends at its
  third call, whose target is an Invalid Date.
\<close>

theorem search_without_limit_ends_with_RangeError:
  "sendNearestTo provider_up forbidden (empty_cache 1710133200000)
     (Some (- 8639999978400000)) None False =
     Some (Inl InvalidTime,
           (empty_cache 1710133200000)\<lparr>events :=
              [Search (Some (- 8639999978400000)) False,
               Search (Some (- 8640000000000000)) False,
               Search None False]\<rparr>)
   \<and> fst (getGribData provider_up
            ((empty_cache 1710133200000)\<lparr>events := [Search (Some (- 8639999978400000)) False]\<rparr>)
            (- 8639999978400000)) = Inr unavailable
   \<and> fst (getGribData provider_up
            ((empty_cache 1710133200000)\<lparr>events :=
               [Search (Some (- 8639999978400000)) False,
                Search (Some (- 8640000000000000)) False]\<rparr>)
            (- 8640000000000000)) = Inr unavailable"
  by code_simp

text \<open>
  C4, as amended. When a limit other than 0 is given and the target of a call is at least
  that many days away from the current time, a backward call makes a forward call at its
  own target plus the limit (the \<^verbatim>\<open>Date\<close> made from that sum), and a forward call throws
  the error of the search limit. A forward call is only ever followed by forward calls.
\<close>

theorem sendNearestTo_search_limit:
  assumes "l \<noteq> 0" and "l * msPerDay \<le> \<bar>now w - t\<bar>"
  shows "sendNearestTo_step e res w (Some t) (Some l) False =
           Call (w\<lparr>events := events w @ [Search (Some t) False]\<rparr>)
             (new_Date_value (t + l * msPerDay)) True
       \<and> sendNearestTo_step e res w (Some t) (Some l) True =
           Done (Inl NoDataWithinSearchLimit,
                 w\<lparr>events := events w @ [Search (Some t) True]\<rparr>)
       \<and> sendNearestTo e res w (Some t) (Some l) True =
           Some (Inl NoDataWithinSearchLimit,
                 w\<lparr>events := events w @ [Search (Some t) True]\<rparr>)
       \<and> (\<forall>v u lim w' t' fw'.
             sendNearestTo_step e res v u lim True = Call w' t' fw' \<longrightarrow> fw')"
proof -
  have a: "sendNearestTo_step e res w (Some t) (Some l) False =
           Call (w\<lparr>events := events w @ [Search (Some t) False]\<rparr>)
             (new_Date_value (t + l * msPerDay)) True"
    using assms
    by (simp add: sendNearestTo_step_def Let_def search_limit_hit_def msPerDay_def mult.commute)
  have b: "sendNearestTo_step e res w (Some t) (Some l) True =
           Done (Inl NoDataWithinSearchLimit,
                 w\<lparr>events := events w @ [Search (Some t) True]\<rparr>)"
    using assms by (simp add: sendNearestTo_step_def Let_def search_limit_hit_def)
  have c: "sendNearestTo e res w (Some t) (Some l) True =
           Some (Inl NoDataWithinSearchLimit,
                 w\<lparr>events := events w @ [Search (Some t) True]\<rparr>)"
    by (subst sendNearestTo.simps) (simp add: b)
  have d: "fw'" if "sendNearestTo_step e res v u lim True = Call w' t' fw'"
    for v u lim w' t' fw'
    using that
    by (auto simp: sendNearestTo_step_def Let_def
        split: if_splits prod.splits sum.splits option.splits)
  from a b c d show ?thesis by blast
qed

theorem sendNearestTo_search_limit_witness:
  "sendNearestTo provider_down forbidden (empty_cache 1710133200000) (Some 1708405200000)
     (Some 1) True =
     Some (Inl NoDataWithinSearchLimit,
           (empty_cache 1710133200000)\<lparr>events := [Search (Some 1708405200000) True]\<rparr>)"
  using sendNearestTo_search_limit
    [of 1 "empty_cache 1710133200000" 1708405200000 provider_down forbidden]
  by (simp add: empty_cache_def msPerDay_def)

text \<open>
  C4, as stated, fails: a search with limit 1 for a time one hour after the current time
  walks back to 30 hours before the requested time, which is 29 hours from the current time,
  and turns there. The forward search starts 6 hours before the requested time, not one day
  after it.
\<close>

theorem forward_search_starts_from_walked_target:
  "next_call (sendNearestTo_calls 6 converter_broken forbidden (empty_cache 1710133200000)
               (Some (1710133200000 + 3600000)) (Some 1) False)
     = Some (Some (1710133200000 + 3600000 - 21600000), True)
   \<and> next_call (sendNearestTo_calls 5 converter_broken forbidden (empty_cache 1710133200000)
               (Some (1710133200000 + 3600000)) (Some 1) False)
     = Some (Some (1710133200000 + 3600000 - 30 * 3600000), False)
   \<and> (1710133200000 + 3600000 - 21600000 :: int) \<noteq> 1710133200000 + 3600000 + 1 * msPerDay"
  by code_simp

end
